(* ===== verification/Fbmm_Prelude.thy ===== *)
theory Fbmm_Prelude
  imports Main "HOL-Library.Word"
begin

text \<open>
  Shared vocabulary of the development: fixed-width integer types, the byte-addressed
  memory of an x86-64 process or machine with little-endian 64-bit accesses, and the ways a
  C program can stop.  The interface \<open>word_store\<close> states what a client may
  assume of a memory of words; the 64-bit accesses implement it.
\<close>

unbundle bit_operations_syntax

named_theorems mem_simps \<open>reading back what was written to a byte memory\<close>
named_theorems cnum_simps \<open>evaluation of the C library's number parsers\<close>

section \<open>Machine types\<close>

type_synonym u8 = "8 word"
type_synonym u16 = "16 word"
type_synonym u32 = "32 word"
type_synonym u64 = "64 word"

text \<open>How a C program stops other than by running to its end.\<close>

datatype fault =
    AssertFail      \<comment> \<open>\<^verbatim>\<open>assert\<close> with a false argument\<close>
  | DivByZero       \<comment> \<open>integer division or remainder by zero: SIGFPE\<close>
  | UndefinedShift  \<comment> \<open>shift distance not below the operand's width\<close>
  | SignedOverflow  \<comment> \<open>result of signed arithmetic outside the type's range\<close>
  | OutOfBounds     \<comment> \<open>array index outside the array\<close>
  | Segfault        \<comment> \<open>access to an address that no mapping covers\<close>
  | ExitWith int    \<comment> \<open>\<^verbatim>\<open>exit(n)\<close>, or a \<^verbatim>\<open>return n\<close> of \<^verbatim>\<open>main\<close> before its end\<close>

section \<open>Byte memory\<close>

type_synonym byte_mem = "u64 \<Rightarrow> u8"

definition read_bytes :: "byte_mem \<Rightarrow> u64 \<Rightarrow> nat \<Rightarrow> u8 list" where
  "read_bytes m a n = map (\<lambda>i. m (a + of_nat i)) [0..<n]"

definition write_bytes :: "byte_mem \<Rightarrow> u64 \<Rightarrow> u8 list \<Rightarrow> byte_mem" where
  "write_bytes m a bs =
     (\<lambda>x. if unat (x - a) < length bs then bs ! unat (x - a) else m x)"

fun le_word :: "u8 list \<Rightarrow> u64" where
  "le_word [] = 0"
| "le_word (b # bs) = ucast b OR push_bit 8 (le_word bs)"

definition le_bytes :: "nat \<Rightarrow> u64 \<Rightarrow> u8 list" where
  "le_bytes n v = map (\<lambda>i. ucast (drop_bit (8 * i) v)) [0..<n]"

definition load64 :: "byte_mem \<Rightarrow> u64 \<Rightarrow> u64" where
  "load64 m a = le_word (read_bytes m a 8)"

definition store64 :: "byte_mem \<Rightarrow> u64 \<Rightarrow> u64 \<Rightarrow> byte_mem" where
  "store64 m a v = write_bytes m a (le_bytes 8 v)"

text \<open>Two eight-byte cells that share no byte (addresses wrap around).\<close>

definition apart64 :: "u64 \<Rightarrow> u64 \<Rightarrow> bool" where
  "apart64 a b \<longleftrightarrow> 8 \<le> unat (b - a) \<and> 8 \<le> unat (a - b)"

lemma length_read_bytes [simp]: "length (read_bytes m a n) = n"
  by (simp add: read_bytes_def)

lemma length_le_bytes [simp]: "length (le_bytes n v) = n"
  by (simp add: le_bytes_def)

lemma le_word_bit:
  "bit (le_word bs) n \<longleftrightarrow> n < 64 \<and> n div 8 < length bs \<and> bit (bs ! (n div 8)) (n mod 8)"
proof (induction bs arbitrary: n)
  case Nil
  then show ?case by simp
next
  case (Cons b bs)
  show ?case
  proof (cases "n < 8")
    case True
    then show ?thesis by (auto simp: bit_simps)
  next
    case False
    then have "n div 8 = Suc ((n - 8) div 8)" "n mod 8 = (n - 8) mod 8"
      by (auto simp: le_div_geq le_mod_geq)
    moreover have "\<not> bit b n" using False by (auto dest: bit_imp_le_length)
    moreover have "n - 8 < 64" if "n < 64" using that by simp
    ultimately show ?thesis using False by (auto simp: bit_simps Cons.IH)
  qed
qed

lemma le_word_le_bytes [mem_simps]: "le_word (le_bytes 8 v) = v"
  by (rule bit_word_eqI) (auto simp: le_word_bit le_bytes_def bit_simps)

lemma le_bytes_le_word [mem_simps]:
  assumes "length bs = 8"
  shows "le_bytes 8 (le_word bs) = bs"
proof (rule nth_equalityI)
  fix i
  assume i: "i < length (le_bytes 8 (le_word bs))"
  show "le_bytes 8 (le_word bs) ! i = bs ! i"
  proof (rule bit_word_eqI)
    fix n
    assume "n < LENGTH(8)"
    then show "bit (le_bytes 8 (le_word bs) ! i) n = bit (bs ! i) n"
      using i assms by (auto simp: le_bytes_def le_word_bit bit_simps)
  qed
qed (simp add: assms)

lemma read_bytes_write_same [mem_simps]:
  "length bs \<le> 2 ^ 64 \<Longrightarrow> read_bytes (write_bytes m a bs) a (length bs) = bs"
  by (auto simp: read_bytes_def write_bytes_def unat_of_nat intro!: nth_equalityI)

lemma write_bytes_read [mem_simps]: "write_bytes m a (read_bytes m a n) = m"
  by (rule ext) (simp add: write_bytes_def read_bytes_def)

lemma write_bytes_write_same [mem_simps]:
  "length bs = length cs \<Longrightarrow> write_bytes (write_bytes m a bs) a cs = write_bytes m a cs"
  by (rule ext) (simp add: write_bytes_def)

text \<open>An address that lies in both of two short ranges makes the ranges overlap.\<close>

lemma small_offset_diff:
  assumes "unat (x - a) < 8" "unat (x - b) < 8"
  shows "unat (b - a :: u64) < 8 \<or> unat (a - b) < 8"
proof (cases "x - b \<le> x - a")
  case True
  have "b - a = (x - a) - (x - b)" by simp
  then have "unat (b - a) = unat (x - a) - unat (x - b)"
    using True by (simp only: unat_sub)
  with assms show ?thesis by linarith
next
  case False
  then have "x - a \<le> x - b" by simp
  moreover have "a - b = (x - b) - (x - a)" by simp
  ultimately have "unat (a - b) = unat (x - b) - unat (x - a)"
    by (simp only: unat_sub)
  with assms show ?thesis by linarith
qed

lemma apart64_ranges: "apart64 a b \<Longrightarrow> unat (x - a) < 8 \<Longrightarrow> \<not> unat (x - b) < 8"
  using small_offset_diff [of x a b] by (auto simp: apart64_def)

lemma apart64_sym: "apart64 a b \<Longrightarrow> apart64 b a"
  by (simp add: apart64_def)

section \<open>The interface of a word memory\<close>

text \<open>Write a list of address-value pairs, first pair first.\<close>

fun store_all :: "('m \<Rightarrow> 'a \<Rightarrow> 'v \<Rightarrow> 'm) \<Rightarrow> 'm \<Rightarrow> ('a \<times> 'v) list \<Rightarrow> 'm" where
  "store_all st m [] = m"
| "store_all st m ((a, v) # avs) = store_all st (st m a v) avs"

locale word_store =
  fixes load :: "'m \<Rightarrow> 'a \<Rightarrow> 'v"
    and store :: "'m \<Rightarrow> 'a \<Rightarrow> 'v \<Rightarrow> 'm"
    and apart :: "'a \<Rightarrow> 'a \<Rightarrow> bool"
  assumes load_store_same: "load (store m a v) a = v"
    and load_store_apart: "apart a b \<Longrightarrow> load (store m a v) b = load m b"
    and store_store_same: "store (store m a v) a w = store m a w"
    and store_store_apart:
      "apart a b \<Longrightarrow> store (store m a v) b w = store (store m b w) a v"
    and store_load_same: "store m a (load m a) = m"
    and apart_sym: "apart a b \<Longrightarrow> apart b a"
begin

lemma store_restore: "store (store m a v) a (load m a) = m"
  by (simp add: store_store_same store_load_same)

lemma load_store_all_apart:
  "(\<And>a. a \<in> fst ` set avs \<Longrightarrow> apart a b) \<Longrightarrow> load (store_all store m avs) b = load m b"
proof (induction avs arbitrary: m)
  case Nil
  then show ?case by simp
next
  case (Cons av avs)
  then show ?case by (cases av) (auto simp: load_store_apart)
qed

lemma store_all_commute:
  "(\<And>a. a \<in> fst ` set avs \<Longrightarrow> apart a b) \<Longrightarrow>
   store_all store (store m b w) avs = store (store_all store m avs) b w"
proof (induction avs arbitrary: m)
  case Nil
  then show ?case by simp
next
  case (Cons av avs)
  obtain a v where av: "av = (a, v)" by (cases av)
  from Cons.prems av have "apart a b" by simp
  then have "store (store m b w) a v = store (store m a v) b w"
    by (rule store_store_apart [symmetric])
  with Cons av show ?case by simp
qed

lemma store_all_append:
  "store_all store m (xs @ ys) = store_all store (store_all store m xs) ys"
proof (induction xs arbitrary: m)
  case Nil
  then show ?case by simp
next
  case (Cons x xs)
  then show ?case by (cases x) simp
qed

text \<open>A write is lost when a later list of writes overwrites the same cell.\<close>

lemma store_all_absorb:
  assumes "a \<in> set as"
    and "\<And>b c. b \<in> set as \<Longrightarrow> c \<in> set as \<Longrightarrow> b \<noteq> c \<Longrightarrow> apart b c"
  shows "store_all store (store m a v) (map (\<lambda>b. (b, f b)) as) =
         store_all store m (map (\<lambda>b. (b, f b)) as)"
proof -
  from split_list_first [OF assms(1)] obtain as1 as2
    where as: "as = as1 @ a # as2" and a: "a \<notin> set as1" by blast
  have "apart c a" if "c \<in> set as1" for c
    using that a assms(2) [of c a] as by auto
  then have "store_all store (store m a v) (map (\<lambda>b. (b, f b)) as1) =
        store (store_all store m (map (\<lambda>b. (b, f b)) as1)) a v"
    by (intro store_all_commute) auto
  then show ?thesis by (simp add: as store_all_append store_store_same)
qed

lemma store_all_refresh: "store_all store m (map (\<lambda>b. (b, load m b)) as) = m"
  by (induction as) (simp_all add: store_load_same)

text \<open>
  Any sequence of writes to cells of a list is undone by writing back, over the whole list,
  what was there before.
\<close>

lemma store_all_undo:
  assumes "fst ` set xs \<subseteq> set as"
    and "\<And>b c. b \<in> set as \<Longrightarrow> c \<in> set as \<Longrightarrow> b \<noteq> c \<Longrightarrow> apart b c"
  shows "store_all store (store_all store m xs) (map (\<lambda>b. (b, load m b)) as) = m"
  using assms(1)
proof (induction xs rule: rev_induct)
  case Nil
  then show ?case by (simp add: store_all_refresh)
next
  case (snoc x xs)
  obtain a v where x: "x = (a, v)" by (cases x)
  with snoc.prems have a: "a \<in> set as" by simp
  have "store_all store (store_all store m (xs @ [x])) (map (\<lambda>b. (b, load m b)) as)
      = store_all store (store_all store m xs) (map (\<lambda>b. (b, load m b)) as)"
    using store_all_absorb [OF a assms(2)] by (simp add: store_all_append x)
  with snoc show ?case by simp
qed

end

text \<open>The 64-bit little-endian accesses of the byte memory implement the interface.\<close>

interpretation mem64: word_store load64 store64 apart64
proof (unfold_locales, goal_cases)
  case (1 m a v)
  have "read_bytes (write_bytes m a (le_bytes 8 v)) a 8 = le_bytes 8 v"
    using read_bytes_write_same [of "le_bytes 8 v" m a] by simp
  then show ?case by (simp add: load64_def store64_def mem_simps)
next
  case (2 a b m v)
  have "unat (b + of_nat i - b) < 8" if "i < 8" for i
    using that by (simp add: unat_of_nat)
  then have "read_bytes (write_bytes m a (le_bytes 8 v)) b 8 = read_bytes m b 8"
    using 2 apart64_ranges [of a b] by (fastforce simp: read_bytes_def write_bytes_def)
  then show ?case by (simp add: load64_def store64_def)
next
  case (3 m a v w)
  then show ?case by (simp add: store64_def mem_simps)
next
  case (4 a b m v w)
  then show ?case
    using apart64_ranges [of a b] by (auto simp: store64_def write_bytes_def)
next
  case (5 m a)
  then show ?case by (simp add: store64_def load64_def mem_simps)
next
  case (6 a b)
  then show ?case by (rule apart64_sym)
qed

section \<open>Words and numbers\<close>

lemma len64: "LENGTH(64) = 64" by simp

lemma load64_cong:
  assumes "\<And>x. unat (x - a) < 8 \<Longrightarrow> n x = m x"
  shows "load64 n a = load64 m a"
proof -
  have "read_bytes n a 8 = read_bytes m a 8"
    using assms by (auto simp: read_bytes_def unat_of_nat intro!: map_cong)
  then show ?thesis by (simp add: load64_def)
qed

lemma unat_next:
  fixes i n :: u64
  assumes "i < n"
  shows "unat (i + 1) = unat i + 1"
proof -
  have "unat n < 2 ^ 64" using unsigned_less [of n] unfolding len64 .
  then have "unat i + 1 < 2 ^ LENGTH(64)" using assms unfolding len64 word_less_nat_alt by linarith
  then show ?thesis by (simp only: unat_word_ariths mod_less unsigned_1)
qed

lemma u64_of_nat: "n < 2 ^ 64 \<Longrightarrow> unat (of_nat n :: u64) = n"
  unfolding unat_of_nat len64 by (rule mod_less)

lemma of_nat_div_u64: "a < 2 ^ 64 \<Longrightarrow> b < 2 ^ 64 \<Longrightarrow> of_nat a div of_nat b = (of_nat (a div b) :: u64)"
  by (rule word_unat_eq_iff [THEN iffD2]) (simp add: unat_div u64_of_nat order.strict_trans1 [OF div_le_dividend])

lemma of_nat_mod_u64: "a < 2 ^ 64 \<Longrightarrow> b < 2 ^ 64 \<Longrightarrow> of_nat a mod of_nat b = (of_nat (a mod b) :: u64)"
  by (rule word_unat_eq_iff [THEN iffD2]) (simp add: unat_mod u64_of_nat order.strict_trans1 [OF mod_less_eq_dividend])

lemma pow_lt_64: "E < 64 \<Longrightarrow> (2 :: nat) ^ E < 2 ^ 64"
  by (rule power_strict_increasing) simp_all

lemma cell_byte:
  fixes a p x :: u64
  assumes "unat (a - p) + 8 \<le> 2 ^ 64" "unat (x - a) < 8"
  shows "unat (x - p) = unat (a - p) + unat (x - a)"
proof -
  have eq: "x - p = (a - p) + (x - a)" by simp
  have "unat ((a - p) + (x - a)) = (unat (a - p) + unat (x - a)) mod 2 ^ 64"
    by (subst unat_word_ariths) (simp only: len64)
  moreover have "unat (a - p) + unat (x - a) < 2 ^ 64" using assms by linarith
  ultimately show ?thesis unfolding eq by (simp only: mod_less)
qed

lemma u64_of_nat_unat: "of_nat (unat (w :: u64)) = w"
  by simp

lemma and_511_mod: "(x :: nat) AND 511 = x mod 512"
  using take_bit_eq_mask [of 9 x] by (simp add: take_bit_eq_mod mask_eq_exp_minus_1)

lemma and_4095_mod: "(x :: nat) AND 4095 = x mod 4096"
  using take_bit_eq_mask [of 12 x] by (simp add: take_bit_eq_mod mask_eq_exp_minus_1)

lemma or_low_bits:
  fixes a b :: nat
  assumes "b < 2 ^ n"
  shows "2 ^ n * a OR b = 2 ^ n * a + b"
proof -
  have "\<not> bit (push_bit n a AND b) i" for i
  proof (cases "i < n")
    case False
    have "take_bit n b = b" using assms by (simp add: take_bit_nat_eq_self)
    then have "\<not> bit b i" using False by (metis bit_take_bit_iff)
    then show ?thesis by (simp add: bit_and_iff)
  qed (simp add: bit_and_iff bit_push_bit_iff)
  then have "push_bit n a AND b = 0" by (simp add: bit_eq_iff)
  then have "push_bit n a OR b = push_bit n a + b" by (simp add: disjunctive_add_eq_or)
  then show ?thesis by (simp add: push_bit_eq_mult mult.commute)
qed

lemma and_63_mod: "(x :: nat) AND 63 = x mod 64"
  using take_bit_eq_mask [of 6 x] by (simp add: take_bit_eq_mod mask_eq_exp_minus_1)

lemma unat_add_le: "unat (a + b :: u64) \<le> unat a + unat b"
  by (simp only: unat_word_ariths mod_less_eq_dividend)

end
