(* ===== verification/Pagewalk.thy ===== *)
theory Pagewalk
  imports Fbmm_Prelude
begin

text \<open>
  The page-table access of \<^verbatim>\<open>bmks/pagewalk_coherence/paging.cc\<close>, as compiled for x86-64:
  physical memory through \<^verbatim>\<open>/dev/mem\<close> (\<open>read_physical\<close>, \<open>write_physical\<close>), the
  software page walk \<open>translate\<close> and the page-table editor \<open>change_pte\<close>.
  The reference is the page tables read directly: \<open>slot\<close> is the address of the entry a
  walk visits at each depth and \<open>mmu\<close> the 4 KB translation those entries define.
  \<open>translate\<close> is shown to compute that translation and \<open>change_pte\<close> to replace
  exactly one last-level entry.
\<close>

section \<open>Physical memory through /dev/mem\<close>

text \<open>
  The machine the program runs on: its file descriptor for \<^verbatim>\<open>/dev/mem\<close> (-1 when closed),
  physical memory, and the answer of the kernel's \<^verbatim>\<open>devmem_is_allowed\<close> for the page of an
  address.  A refused access transfers nothing.
\<close>

record machine =
  fd_devmem :: int
  phys :: byte_mem
  devmem_ok :: "u64 \<Rightarrow> bool"

definition devmem_range_ok :: "machine \<Rightarrow> u64 \<Rightarrow> nat \<Rightarrow> bool" where
  "devmem_range_ok M addr n = list_all (\<lambda>i. devmem_ok M (addr + of_nat i)) [0..<n]"

text \<open>The buffer passed in is returned as it was when nothing can be read.\<close>

definition read_physical :: "machine \<Rightarrow> u64 \<Rightarrow> u8 list \<Rightarrow> u8 list" where
  "read_physical M addr buf =
     (if fd_devmem M < 0 then buf
      else if devmem_range_ok M addr (length buf)
      then read_bytes (phys M) addr (length buf) else buf)"

text \<open>
  The first component tells whether the message that the write was refused is printed;
  the source has no \<^verbatim>\<open>return\<close> after printing it.
\<close>

definition write_physical :: "machine \<Rightarrow> u64 \<Rightarrow> u8 list \<Rightarrow> bool \<times> machine" where
  "write_physical M addr buf =
     (if fd_devmem M < 0 then (False, M)
      else (addr < 65536,
            if devmem_range_ok M addr (length buf)
            then M\<lparr>phys := write_bytes (phys M) addr buf\<rparr> else M))"

section \<open>The software page walk\<close>

definition translation_levels :: nat where "translation_levels = 4"
definition translation_shifts :: "nat list" where "translation_shifts = [12, 21, 30, 39]"
definition pte_per_pde :: nat where "pte_per_pde = 512"

definition frame_mask :: u64 where "frame_mask = 0x000ffffffffff000"

definition canonical :: "u64 \<Rightarrow> bool" where
  "canonical v \<longleftrightarrow> drop_bit 48 v = 0 \<or> drop_bit 48 v = 0xffff"

definition table_index :: "u64 \<Rightarrow> nat \<Rightarrow> u64" where
  "table_index v l = drop_bit (translation_shifts ! l) v AND of_nat (pte_per_pde - 1)"

text \<open>
  The loop over the levels still to visit, with the loop variables \<^verbatim>\<open>pte\<close> and
  \<^verbatim>\<open>cur_ptr\<close>.  \<open>Inl\<close> is \<^verbatim>\<open>exit\<close>.
\<close>

fun translate_loop ::
  "machine \<Rightarrow> u64 \<Rightarrow> int \<Rightarrow> nat list \<Rightarrow> u64 \<Rightarrow> u64 \<Rightarrow> fault + u64" where
  "translate_loop M v level [] pte cur_ptr = Inr (cur_ptr OR (v AND 0xfff))"
| "translate_loop M v level (l # ls) pte cur_ptr =
     (let cur_offset = table_index v l;
          pte' = le_word (read_physical M (cur_ptr + cur_offset * 8) (le_bytes 8 pte))
      in if l \<noteq> 0 \<and> pte' AND 0x80 \<noteq> 0 then Inl (ExitWith 1)
         else if level = int l + 1 then Inr pte'
         else if NOT pte' AND 1 \<noteq> 0 then Inl (ExitWith 1)
         else translate_loop M v level ls pte' (pte' AND frame_mask))"

definition translate :: "machine \<Rightarrow> u64 \<Rightarrow> u64 \<Rightarrow> int \<Rightarrow> fault + u64" where
  "translate M cr3 vaddr level =
     (if \<not> canonical vaddr then Inr 0
      else translate_loop M vaddr level (rev [0..<translation_levels]) 0 cr3)"

text \<open>
  \<open>u\<close> is the indeterminate content of the uninitialised local \<^verbatim>\<open>old_pte\<close>, which is
  returned when \<^verbatim>\<open>/dev/mem\<close> gives nothing.
\<close>

definition change_pte ::
  "u64 \<Rightarrow> machine \<Rightarrow> u64 \<Rightarrow> u64 \<Rightarrow> u64 \<Rightarrow> fault + (u64 \<times> machine)" where
  "change_pte u M cr3 vaddr new_pte =
     (case translate M cr3 vaddr 2 of
        Inl f \<Rightarrow> Inl f
      | Inr e \<Rightarrow>
          (let pde = e AND frame_mask;
               cur_offset = table_index vaddr 0;
               old_pte = le_word (read_physical M (pde + cur_offset * 8) (le_bytes 8 u))
           in Inr (old_pte, snd (write_physical M (pde + cur_offset * 8) (le_bytes 8 new_pte)))))"

section \<open>The translation that the page tables define\<close>

definition pte_present :: "u64 \<Rightarrow> bool" where "pte_present e \<longleftrightarrow> e AND 1 \<noteq> 0"
definition pte_large :: "u64 \<Rightarrow> bool" where "pte_large e \<longleftrightarrow> e AND 0x80 \<noteq> 0"

text \<open>
  Physical address of the entry visited at depth \<open>d\<close> of the walk for \<open>v\<close>: depth 0
  is the top-level table at \<open>cr3\<close>, depth 3 the last-level entry.
\<close>

primrec slot :: "byte_mem \<Rightarrow> u64 \<Rightarrow> u64 \<Rightarrow> nat \<Rightarrow> u64" where
  "slot m cr3 v 0 = cr3 + table_index v 3 * 8"
| "slot m cr3 v (Suc d) =
     (load64 m (slot m cr3 v d) AND frame_mask) + table_index v (2 - d) * 8"

definition upper_ok :: "byte_mem \<Rightarrow> u64 \<Rightarrow> u64 \<Rightarrow> bool" where
  "upper_ok m cr3 v \<longleftrightarrow>
     (\<forall>d<3. pte_present (load64 m (slot m cr3 v d)) \<and> \<not> pte_large (load64 m (slot m cr3 v d)))"

definition mmu :: "byte_mem \<Rightarrow> u64 \<Rightarrow> u64 \<Rightarrow> u64 option" where
  "mmu m cr3 v =
     (let e = load64 m (slot m cr3 v 3)
      in if upper_ok m cr3 v \<and> pte_present e
         then Some ((e AND frame_mask) OR (v AND 0xfff)) else None)"

definition devmem_open :: "machine \<Rightarrow> bool" where
  "devmem_open M \<longleftrightarrow> 0 \<le> fd_devmem M \<and> (\<forall>a. devmem_ok M a)"

lemma table_index_less: "unat (table_index v l) < 512"
proof -
  have "table_index v l \<le> 511"
    by (simp add: table_index_def pte_per_pde_def word_and_le2 word_and_le1)
  then show ?thesis by (simp add: word_le_nat_alt)
qed

lemma not_and_one: "NOT e AND 1 \<noteq> (0 :: u64) \<longleftrightarrow> \<not> pte_present e"
  by (auto simp: pte_present_def and_one_eq mod_2_eq_odd bit_0 even_not_iff)

lemma less_3_cases: "(\<forall>d<3. P d) \<longleftrightarrow> P 0 \<and> P 1 \<and> P (2 :: nat)"
  by (auto simp: numeral_eq_Suc less_Suc_eq)

lemma less_2_cases: "(\<forall>d<2. P d) \<longleftrightarrow> P 0 \<and> P (1 :: nat)"
  by (auto simp: numeral_eq_Suc less_Suc_eq)

lemma read_physical_open [mem_simps]:
  "devmem_open M \<Longrightarrow> length buf = 8 \<Longrightarrow> le_word (read_physical M a buf) = load64 (phys M) a"
  by (simp add: read_physical_def devmem_open_def devmem_range_ok_def load64_def list_all_iff)

lemma write_physical_open [mem_simps]:
  "devmem_open M \<Longrightarrow>
   snd (write_physical M a (le_bytes 8 v)) = M\<lparr>phys := store64 (phys M) a v\<rparr>"
  by (simp add: write_physical_def devmem_open_def devmem_range_ok_def store64_def list_all_iff)

lemma devmem_open_phys [simp]: "devmem_open (M\<lparr>phys := m\<rparr>) = devmem_open M"
  by (simp add: devmem_open_def)

lemma levels_list: "rev [0..<translation_levels] = [3, 2, 1, 0]"
  by (simp add: translation_levels_def upt_rec)

lemma slot_unfold:
  "slot m cr3 v 1 = (load64 m (slot m cr3 v 0) AND frame_mask) + table_index v 2 * 8"
  "slot m cr3 v 2 = (load64 m (slot m cr3 v 1) AND frame_mask) + table_index v 1 * 8"
  "slot m cr3 v 3 = (load64 m (slot m cr3 v 2) AND frame_mask) + table_index v 0 * 8"
  by (simp_all add: numeral_2_eq_2 numeral_3_eq_3)

text \<open>The four unrolled iterations of \<open>translate\<close>, over the entries of the tables.\<close>

lemma translate_unrolled:
  assumes "devmem_open M" and "canonical v"
  shows "translate M cr3 v level =
    (let e = (\<lambda>d. load64 (phys M) (slot (phys M) cr3 v d)) in
     if pte_large (e 0) then Inl (ExitWith 1) else if level = 4 then Inr (e 0)
     else if \<not> pte_present (e 0) \<or> pte_large (e 1) then Inl (ExitWith 1)
     else if level = 3 then Inr (e 1)
     else if \<not> pte_present (e 1) \<or> pte_large (e 2) then Inl (ExitWith 1)
     else if level = 2 then Inr (e 2)
     else if \<not> pte_present (e 2) then Inl (ExitWith 1)
     else if level = 1 then Inr (e 3)
     else if \<not> pte_present (e 3) then Inl (ExitWith 1)
     else Inr ((e 3 AND frame_mask) OR (v AND 0xfff)))"
  using assms
  by (simp add: translate_def levels_list Let_def read_physical_open not_and_one
      slot_unfold pte_large_def)

declare slot.simps [simp del]

text \<open>
  A write to a cell that no upper-level entry of the walk for \<open>v\<close> occupies leaves the
  whole walk where it was.
\<close>

definition walk_avoids :: "byte_mem \<Rightarrow> u64 \<Rightarrow> u64 \<Rightarrow> u64 \<Rightarrow> bool" where
  "walk_avoids m cr3 v s \<longleftrightarrow> (\<forall>d<3. apart64 s (slot m cr3 v d))"

lemma slot_store [mem_simps]:
  assumes "walk_avoids m cr3 v s" and "d \<le> 3"
  shows "slot (store64 m s x) cr3 v d = slot m cr3 v d"
  using assms(2)
proof (induction d)
  case 0
  then show ?case by (simp add: slot.simps)
next
  case (Suc d)
  with assms(1) have "apart64 s (slot m cr3 v d)" by (simp add: walk_avoids_def)
  with Suc show ?case by (simp add: slot.simps mem64.load_store_apart)
qed

lemma upper_entry_store [mem_simps]:
  assumes "walk_avoids m cr3 v s" and "d < 3"
  shows "load64 (store64 m s x) (slot m cr3 v d) = load64 m (slot m cr3 v d)"
  using assms by (simp add: walk_avoids_def mem64.load_store_apart)

lemma upper_ok_store [mem_simps]:
  "walk_avoids m cr3 v s \<Longrightarrow> upper_ok (store64 m s x) cr3 v = upper_ok m cr3 v"
  by (simp add: upper_ok_def mem_simps)

lemma walk_avoids_store [mem_simps]:
  "walk_avoids m cr3 v s \<Longrightarrow> walk_avoids (store64 m s x) cr3 v t = walk_avoids m cr3 v t"
  by (simp add: walk_avoids_def [of _ _ _ t] mem_simps)

lemma upper_okD:
  "upper_ok m cr3 v \<Longrightarrow> d < 3 \<Longrightarrow> pte_present (load64 m (slot m cr3 v d))"
  "upper_ok m cr3 v \<Longrightarrow> d < 3 \<Longrightarrow> \<not> pte_large (load64 m (slot m cr3 v d))"
  by (simp_all add: upper_ok_def)

lemma translate_pte:
  assumes "devmem_open M" "canonical v" "upper_ok (phys M) cr3 v"
  shows "translate M cr3 v 1 = Inr (load64 (phys M) (slot (phys M) cr3 v 3))"
    and "translate M cr3 v 2 = Inr (load64 (phys M) (slot (phys M) cr3 v 2))"
  using assms by (simp_all add: translate_unrolled upper_okD Let_def)

lemma change_pte_eq:
  assumes "devmem_open M" "canonical v" "upper_ok (phys M) cr3 v"
  shows "change_pte u M cr3 v new_pte =
    Inr (load64 (phys M) (slot (phys M) cr3 v 3),
         M\<lparr>phys := store64 (phys M) (slot (phys M) cr3 v 3) new_pte\<rparr>)"
  using assms
  by (simp add: change_pte_def translate_pte(2) read_physical_open write_physical_open
      slot_unfold Let_def)

section \<open>A concrete set of page tables\<close>

text \<open>Tables at 0x1000 to 0x4000 that map the page 0x1000 to the frame 0x9000.\<close>

definition demo_tables :: byte_mem where
  "demo_tables = store_all store64 (\<lambda>_. 0)
     [(0x1000, 0x2003), (0x2000, 0x3003), (0x3000, 0x4003), (0x4008, 0x9003)]"
definition demo_machine :: machine where
  "demo_machine = \<lparr>fd_devmem = 3, phys = demo_tables, devmem_ok = (\<lambda>_. True)\<rparr>"

lemma demo_loads:
  "load64 demo_tables 0x1000 = 0x2003" "load64 demo_tables 0x2000 = 0x3003"
  "load64 demo_tables 0x3000 = 0x4003" "load64 demo_tables 0x4008 = 0x9003"
  by (simp_all add: demo_tables_def mem64.load_store_same mem64.load_store_apart apart64_def)

lemma demo_loads_zero:
  "load64 demo_tables 0x3008 = 0" "load64 demo_tables 8 = 0"
  by (simp_all add: demo_tables_def mem64.load_store_apart apart64_def)
    (simp_all add: load64_def read_bytes_def upt_rec)

lemmas index_eval = table_index_def translation_shifts_def pte_per_pde_def frame_mask_def

lemma demo_slots:
  "slot demo_tables 0x1000 0x1abc 0 = 0x1000" "slot demo_tables 0x1000 0x1abc (Suc 0) = 0x2000"
  "slot demo_tables 0x1000 0x1abc 2 = 0x3000" "slot demo_tables 0x1000 0x1abc 3 = 0x4008"
  "slot demo_tables 0x1000 0x2abc 0 = 0x1000" "slot demo_tables 0x1000 0x2abc (Suc 0) = 0x2000"
  "slot demo_tables 0x1000 0x2abc 2 = 0x3000" "slot demo_tables 0x1000 0x2abc 3 = 0x4010"
  "slot demo_tables 0x1000 0x201000 0 = 0x1000"
  "slot demo_tables 0x1000 0x201000 (Suc 0) = 0x2000"
  "slot demo_tables 0x1000 0x201000 2 = 0x3008"
  by (simp_all add: slot.simps slot_unfold demo_loads index_eval)

lemma demo_open: "devmem_open demo_machine"
  by (simp add: devmem_open_def demo_machine_def)

lemma demo_canonical: "canonical 0x1abc"
  by (simp add: canonical_def)

lemma demo_upper_ok: "upper_ok demo_tables 0x1000 0x1abc"
  by (simp add: upper_ok_def less_3_cases demo_slots demo_loads pte_present_def pte_large_def)

lemma demo_avoids: "walk_avoids demo_tables 0x1000 0x1abc 0x4008"
  by (simp add: walk_avoids_def less_3_cases demo_slots apart64_def)

section \<open>Properties\<close>



text \<open>
  C12: \<^verbatim>\<open>change_pte\<close> returns the old last-level entry of an address whose upper page-table
  levels are in place, and afterwards the page tables (and \<^verbatim>\<open>translate\<close> with
  \<^verbatim>\<open>level = 1\<close>) give the new entry for that address.
\<close>

theorem change_pte_maps:
  assumes "devmem_open M" and "canonical v" and "upper_ok (phys M) cr3 v"
    and "walk_avoids (phys M) cr3 v (slot (phys M) cr3 v 3)"
    and "pte_present new_pte"
  shows "\<exists>M'. change_pte u M cr3 v new_pte = Inr (load64 (phys M) (slot (phys M) cr3 v 3), M') \<and>
    mmu (phys M') cr3 v = Some ((new_pte AND frame_mask) OR (v AND 0xfff)) \<and>
    translate M' cr3 v 1 = Inr new_pte"
  using assms
  by (simp add: change_pte_eq translate_pte mem_simps mmu_def mem64.load_store_same Let_def)

theorem change_pte_maps_witness:
  "\<exists>M'. change_pte 0 demo_machine 0x1000 0x1abc 0x7001 = Inr (0x9003, M') \<and>
     mmu (phys M') 0x1000 0x1abc = Some 0x7abc \<and> translate M' 0x1000 0x1abc 1 = Inr 0x7001"
  using change_pte_maps [of demo_machine "0x1abc" "0x1000" "0x7001" 0] demo_open demo_canonical
    demo_upper_ok demo_avoids
  by (simp add: demo_machine_def demo_slots demo_loads pte_present_def frame_mask_def)



text \<open>
  C14: putting the returned entry back with \<^verbatim>\<open>change_pte\<close> restores physical memory bit for
  bit, whatever the first call installed.
\<close>

theorem change_pte_restore:
  assumes "devmem_open M" and "canonical v" and "upper_ok (phys M) cr3 v"
    and "walk_avoids (phys M) cr3 v (slot (phys M) cr3 v 3)"
    and "change_pte u M cr3 v new_pte = Inr (old, M')"
  shows "change_pte u' M' cr3 v old = Inr (new_pte, M)"
  using assms
  by (auto simp: change_pte_eq mem_simps mem64.load_store_same mem64.store_restore)

theorem change_pte_restore_witness:
  "\<exists>M'. change_pte 0 demo_machine 0x1000 0x1abc 0x7001 = Inr (0x9003, M') \<and>
     change_pte 5 M' 0x1000 0x1abc 0x9003 = Inr (0x7001, demo_machine)"
proof -
  let ?M' = "demo_machine\<lparr>phys := store64 demo_tables 0x4008 0x7001\<rparr>"
  have eq: "change_pte 0 demo_machine 0x1000 0x1abc 0x7001 = Inr (0x9003, ?M')"
    using change_pte_eq [of demo_machine "0x1abc" "0x1000" 0 "0x7001"] demo_open demo_canonical
      demo_upper_ok by (simp add: demo_machine_def demo_slots demo_loads)
  moreover have "change_pte 5 ?M' 0x1000 0x1abc 0x9003 = Inr (0x7001, demo_machine)"
    using change_pte_restore [of demo_machine "0x1abc" "0x1000" 0 "0x7001" "0x9003" ?M' 5] eq
      demo_open demo_canonical demo_upper_ok demo_avoids
    by (simp add: demo_machine_def demo_slots)
  ultimately show ?thesis by blast
qed

text \<open>
  C15: when the last-but-one entry of an address is not present, \<^verbatim>\<open>change_pte\<close> does not
  fail: it follows the frame number of the absent entry and overwrites a cell of that frame.
  For an all-zero entry this is a cell of the first physical page, where
  \<^verbatim>\<open>write_physical\<close> announces that it refuses the write and then performs it.
\<close>

theorem change_pte_absent_table:
  assumes "devmem_open M" and "canonical v"
    and "\<forall>d<2. pte_present (load64 (phys M) (slot (phys M) cr3 v d)) \<and>
               \<not> pte_large (load64 (phys M) (slot (phys M) cr3 v d))"
    and "load64 (phys M) (slot (phys M) cr3 v 2) = 0"
  shows "fst (write_physical M (table_index v 0 * 8) (le_bytes 8 new_pte)) \<and>
    change_pte u M cr3 v new_pte =
      Inr (load64 (phys M) (table_index v 0 * 8),
           M\<lparr>phys := store64 (phys M) (table_index v 0 * 8) new_pte\<rparr>)"
proof
  have "table_index v 0 * 8 < (65536 :: u64)"
    using table_index_less [of v 0] by (simp add: word_less_nat_alt unat_word_ariths)
  then show "fst (write_physical M (table_index v 0 * 8) (le_bytes 8 new_pte))"
    using assms(1) by (simp add: write_physical_def devmem_open_def)
  have "translate M cr3 v 2 = Inr 0"
    using assms by (simp add: translate_unrolled Let_def less_2_cases pte_large_def)
  then show "change_pte u M cr3 v new_pte =
      Inr (load64 (phys M) (table_index v 0 * 8),
           M\<lparr>phys := store64 (phys M) (table_index v 0 * 8) new_pte\<rparr>)"
    using assms(1) by (simp add: change_pte_def read_physical_open write_physical_open Let_def)
qed

theorem change_pte_absent_table_witness:
  "fst (write_physical demo_machine 8 (le_bytes 8 0x7001)) \<and>
   (\<exists>M'. change_pte 0 demo_machine 0x1000 0x201000 0x7001 = Inr (0, M') \<and>
      load64 (phys M') 8 = 0x7001)"
  using change_pte_absent_table [of demo_machine "0x201000" "0x1000" "0x7001" 0] demo_open
  by (simp add: demo_machine_def demo_slots demo_loads canonical_def pte_present_def
      pte_large_def less_2_cases index_eval demo_loads_zero mem64.load_store_same)

end
