(* ===== verification/Page_Window.thy ===== *)
theory Page_Window
  imports Pagewalk
begin

text \<open>
  The page-table window of \<^verbatim>\<open>paging.cc\<close>: \<^verbatim>\<open>main\<close> remaps a small array \<^verbatim>\<open>pt_window\<close> onto
  the last-level page tables that map the large array \<^verbatim>\<open>bigbuf\<close>, edits page mappings through
  it, and puts everything back at its label \<^verbatim>\<open>cleanup\<close>.  Stores through the window go
  through the processor's own translation, \<open>mmu\<close>.  Shown here: a store to cell \<open>k\<close> of
  the window is a store to the last-level entry of page \<open>k\<close> of the buffer, and the whole
  run leaves physical memory as it found it.
\<close>

section \<open>Setting up and taking down the window\<close>

text \<open>Size of the window in pages; unsigned 32-bit arithmetic.\<close>

definition num_pde_to_map :: "u32 \<Rightarrow> nat" where
  "num_pde_to_map ASIZE = unat ((ASIZE + 2 * of_nat pte_per_pde - 2) div of_nat pte_per_pde)"

text \<open>Address of page \<open>i\<close> of the window, \<^verbatim>\<open>(uintptr_t)pt_window+(i<<12)\<close>.\<close>

definition window_page :: "u64 \<Rightarrow> nat \<Rightarrow> u64" where
  "window_page win i = win + push_bit 12 (of_nat i)"

text \<open>Address of the \<open>i\<close>-th 2 MB region that the buffer touches.\<close>

definition region_base :: "u64 \<Rightarrow> nat \<Rightarrow> u64" where
  "region_base big i =
     (big AND NOT (4096 * of_nat pte_per_pde - 1)) + of_nat i * (4096 * of_nat pte_per_pde)"

text \<open>Address of \<^verbatim>\<open>p_pte[i]\<close>, where \<^verbatim>\<open>p_pte\<close> points to the entry of the first buffer page.\<close>

definition pte_cell :: "u64 \<Rightarrow> u64 \<Rightarrow> nat \<Rightarrow> u64" where
  "pte_cell win big i =
     win + 8 * ((drop_bit 12 big AND (of_nat pte_per_pde - 1)) + 0) + 8 * of_nat i"

text \<open>The set-up loop: back up the entry of each window page and replace it by the entry that
  points to the buffer's page table.  \<open>u\<close> gives the uninitialised locals of \<open>change_pte\<close>.\<close>

fun map_window ::
  "(nat \<Rightarrow> u64) \<Rightarrow> machine \<Rightarrow> u64 \<Rightarrow> u64 \<Rightarrow> u64 \<Rightarrow> nat list \<Rightarrow> fault + (u64 list \<times> machine)" where
  "map_window u M cr3 win big [] = Inr ([], M)"
| "map_window u M cr3 win big (i # is) =
     (case translate M cr3 (region_base big i) 2 of
        Inl f \<Rightarrow> Inl f
      | Inr e \<Rightarrow>
          (case change_pte (u i) M cr3 (window_page win i) e of
             Inl f \<Rightarrow> Inl f
           | Inr (old, M') \<Rightarrow>
               (case map_window u M' cr3 win big is of
                  Inl f \<Rightarrow> Inl f
                | Inr (olds, M'') \<Rightarrow> Inr (old # olds, M''))))"

text \<open>The last loop of the clean-up, over the pairs of index and saved entry.\<close>

fun unmap_window ::
  "(nat \<Rightarrow> u64) \<Rightarrow> machine \<Rightarrow> u64 \<Rightarrow> u64 \<Rightarrow> (nat \<times> u64) list \<Rightarrow> fault + machine" where
  "unmap_window u M cr3 win [] = Inr M"
| "unmap_window u M cr3 win ((i, old) # os) =
     (case change_pte (u i) M cr3 (window_page win i) old of
        Inl f \<Rightarrow> Inl f
      | Inr (_, M') \<Rightarrow> unmap_window u M' cr3 win os)"

text \<open>A load of an entry by the processor: translated by the page tables, \<open>None\<close> on a page fault.\<close>

definition cpu_load :: "byte_mem \<Rightarrow> u64 \<Rightarrow> u64 \<Rightarrow> u64 option" where
  "cpu_load m cr3 va = map_option (load64 m) (mmu m cr3 va)"

text \<open>A store of an entry by the processor.\<close>

definition cpu_store :: "byte_mem \<Rightarrow> u64 \<Rightarrow> u64 \<Rightarrow> u64 \<Rightarrow> byte_mem option" where
  "cpu_store m cr3 va x = map_option (\<lambda>pa. store64 m pa x) (mmu m cr3 va)"

text \<open>The loop \<^verbatim>\<open>old_pagetable[i] = p_pte[i]\<close>.\<close>

fun read_ptes :: "byte_mem \<Rightarrow> u64 \<Rightarrow> u64 \<Rightarrow> u64 \<Rightarrow> nat list \<Rightarrow> u64 list option" where
  "read_ptes m cr3 win big [] = Some []"
| "read_ptes m cr3 win big (k # ks) =
     (case cpu_load m cr3 (pte_cell win big k) of
        None \<Rightarrow> None
      | Some x \<Rightarrow> map_option (Cons x) (read_ptes m cr3 win big ks))"

text \<open>A sequence of stores \<^verbatim>\<open>p_pte[k] = x\<close>.\<close>

fun poke_ptes :: "byte_mem \<Rightarrow> u64 \<Rightarrow> u64 \<Rightarrow> u64 \<Rightarrow> (nat \<times> u64) list \<Rightarrow> byte_mem option" where
  "poke_ptes m cr3 win big [] = Some m"
| "poke_ptes m cr3 win big ((k, x) # kxs) =
     (case cpu_store m cr3 (pte_cell win big k) x of
        None \<Rightarrow> None
      | Some m' \<Rightarrow> poke_ptes m' cr3 win big kxs)"

text \<open>The page-table work of \<^verbatim>\<open>main\<close> from the set-up of the window to the end of the clean-up.  The
  experiment in between may fault; its stores may depend on the saved page table, as the
  program takes its two test mappings from there.\<close>

definition remap_run ::
  "(nat \<Rightarrow> u64) \<Rightarrow> (nat \<Rightarrow> u64) \<Rightarrow> machine \<Rightarrow> u64 \<Rightarrow> u64 \<Rightarrow> u64 \<Rightarrow> u32 \<Rightarrow>
   (u64 list \<Rightarrow> fault + (nat \<times> u64) list) \<Rightarrow> fault + machine" where
  "remap_run u u' M cr3 win big ASIZE probe =
     (let n = num_pde_to_map ASIZE in
      case map_window u M cr3 win big [0..<n] of
        Inl f \<Rightarrow> Inl f
      | Inr (old_pgmap_ptes, M1) \<Rightarrow>
          (case read_ptes (phys M1) cr3 win big [0..<unat ASIZE] of
             None \<Rightarrow> Inl Segfault
           | Some old_pagetable \<Rightarrow>
               (case probe old_pagetable of
                  Inl f \<Rightarrow> Inl f
                | Inr kxs \<Rightarrow>
                    (case poke_ptes (phys M1) cr3 win big kxs of
                       None \<Rightarrow> Inl Segfault
                     | Some m2 \<Rightarrow>
                         (case poke_ptes m2 cr3 win big (zip [0..<unat ASIZE] old_pagetable) of
                            None \<Rightarrow> Inl Segfault
                          | Some m3 \<Rightarrow>
                              unmap_window u' (M1\<lparr>phys := m3\<rparr>) cr3 win
                                (zip [0..<n] old_pgmap_ptes))))))"

section \<open>Page tables in order\<close>

text \<open>Page-aligned addresses, by page number.\<close>

definition vpage :: "nat \<Rightarrow> u64" where "vpage p = of_nat (4096 * p)"

text \<open>The entries above the last two levels are in place; the last-but-one may be absent.\<close>

definition region_ok :: "byte_mem \<Rightarrow> u64 \<Rightarrow> u64 \<Rightarrow> bool" where
  "region_ok m cr3 v \<longleftrightarrow>
     (\<forall>d<2. pte_present (load64 m (slot m cr3 v d)) \<and> \<not> pte_large (load64 m (slot m cr3 v d))) \<and>
     \<not> pte_large (load64 m (slot m cr3 v 2))"

text \<open>No last-level entry of an address in \<open>ws\<close> is visited by the upper part of another walk,
  and different addresses have different last-level entries: the page tables form a tree.\<close>

definition tables_apart :: "byte_mem \<Rightarrow> u64 \<Rightarrow> u64 set \<Rightarrow> u64 set \<Rightarrow> bool" where
  "tables_apart m cr3 ws vs \<longleftrightarrow>
     (\<forall>w\<in>ws. \<forall>v\<in>ws \<union> vs. walk_avoids m cr3 v (slot m cr3 w 3)) \<and>
     (\<forall>w\<in>ws. \<forall>w'\<in>ws. w \<noteq> w' \<longrightarrow> apart64 (slot m cr3 w 3) (slot m cr3 w' 3))"

text \<open>The window at pages \<open>W\<close> to \<open>W + n - 1\<close> and the buffer at pages \<open>B\<close> to \<open>B + A - 1\<close> are
  user-space mappings of 4 KB pages in page tables that form a tree.\<close>

definition window_setting :: "byte_mem \<Rightarrow> u64 \<Rightarrow> nat \<Rightarrow> nat \<Rightarrow> nat \<Rightarrow> nat \<Rightarrow> bool" where
  "window_setting m cr3 W B A n \<longleftrightarrow>
     W + n \<le> 2 ^ 35 \<and> B + A + 1024 \<le> 2 ^ 35 \<and> n = (A + 1022) div 512 \<and>
     {W..<W + n} \<inter> {B..<B + A} = {} \<and>
     (\<forall>p\<in>{W..<W + n} \<union> {B..<B + A}. upper_ok m cr3 (vpage p)) \<and>
     (\<forall>i<n. region_ok m cr3 (vpage (512 * (B div 512 + i)))) \<and>
     tables_apart m cr3 (vpage ` ({W..<W + n} \<union> {B..<B + A}))
       ((\<lambda>i. vpage (512 * (B div 512 + i))) ` {..<n})"

text \<open>What the set-up writes.\<close>

definition window_writes :: "byte_mem \<Rightarrow> u64 \<Rightarrow> nat \<Rightarrow> nat \<Rightarrow> nat \<Rightarrow> (u64 \<times> u64) list" where
  "window_writes m cr3 W B n =
     map (\<lambda>i. (slot m cr3 (vpage (W + i)) 3,
               load64 m (slot m cr3 (vpage (512 * (B div 512 + i))) 2))) [0..<n]"

text \<open>What stores through the window write.\<close>

definition pte_writes :: "byte_mem \<Rightarrow> u64 \<Rightarrow> nat \<Rightarrow> (nat \<times> u64) list \<Rightarrow> (u64 \<times> u64) list" where
  "pte_writes m cr3 B kxs = map (\<lambda>(k, x). (slot m cr3 (vpage (B + k)) 3, x)) kxs"

section \<open>Lemmas\<close>

lemma region_ok_store [mem_simps]:
  "walk_avoids m cr3 v s \<Longrightarrow> region_ok (store64 m s x) cr3 v = region_ok m cr3 v"
  by (simp add: region_ok_def mem_simps)

lemma tables_apartD:
  "tables_apart m cr3 ws vs \<Longrightarrow> w \<in> ws \<Longrightarrow> v \<in> ws \<union> vs \<Longrightarrow> walk_avoids m cr3 v (slot m cr3 w 3)"
  "tables_apart m cr3 ws vs \<Longrightarrow> w \<in> ws \<Longrightarrow> w' \<in> ws \<Longrightarrow> w \<noteq> w' \<Longrightarrow>
     apart64 (slot m cr3 w 3) (slot m cr3 w' 3)"
  by (auto simp: tables_apart_def)

lemma tables_apart_store:
  assumes "tables_apart m cr3 ws vs" and "w \<in> ws"
  shows "tables_apart (store64 m (slot m cr3 w 3) x) cr3 ws vs"
  using assms tables_apartD(1) [OF assms]
  by (simp add: tables_apart_def mem_simps)

lemma translate_region:
  assumes "devmem_open M" "canonical v" "region_ok (phys M) cr3 v"
  shows "translate M cr3 v 2 = Inr (load64 (phys M) (slot (phys M) cr3 v 2))"
  using assms by (simp add: translate_unrolled Let_def region_ok_def less_2_cases)

lemma map_window_eq:
  assumes "devmem_open M"
    and "distinct (map (window_page win) is)"
    and "\<forall>i\<in>set is. canonical (window_page win i) \<and> canonical (region_base big i)"
    and "\<forall>i\<in>set is. upper_ok (phys M) cr3 (window_page win i)"
    and "\<forall>i\<in>set is. region_ok (phys M) cr3 (region_base big i)"
    and "tables_apart (phys M) cr3 ws vs"
    and "window_page win ` set is \<subseteq> ws" and "region_base big ` set is \<subseteq> vs"
  shows "map_window u M cr3 win big is =
    Inr (map (\<lambda>i. load64 (phys M) (slot (phys M) cr3 (window_page win i) 3)) is,
         M\<lparr>phys := store_all store64 (phys M)
            (map (\<lambda>i. (slot (phys M) cr3 (window_page win i) 3,
                       load64 (phys M) (slot (phys M) cr3 (region_base big i) 2))) is)\<rparr>)"
  using assms
proof (induction "is" arbitrary: M)
  case Nil
  then show ?case by simp
next
  case (Cons i js)
  let ?m = "phys M"
  let ?w = "window_page win i" and ?s = "slot (phys M) cr3 (window_page win i) 3"
  let ?e = "load64 ?m (slot ?m cr3 (region_base big i) 2)"
  let ?M' = "M\<lparr>phys := store64 ?m ?s ?e\<rparr>"
  have w: "?w \<in> ws" using Cons.prems(7) by simp
  have av: "walk_avoids ?m cr3 v ?s" if "v \<in> ws \<union> vs" for v
    using tables_apartD(1) [OF Cons.prems(6) w that] .
  have avw: "walk_avoids ?m cr3 (window_page win j) ?s" if "j \<in> set js" for j
    using av [of "window_page win j"] Cons.prems(7) that by auto
  have avr: "walk_avoids ?m cr3 (region_base big j) ?s" if "j \<in> set js" for j
    using av [of "region_base big j"] Cons.prems(8) that by auto
  have ap: "apart64 ?s (slot ?m cr3 (window_page win j) 3)" if "j \<in> set js" for j
    using tables_apartD(2) [OF Cons.prems(6) w, of "window_page win j"] Cons.prems(2,7) that
    by auto
  have IH: "map_window u ?M' cr3 win big js =
    Inr (map (\<lambda>i. load64 (phys ?M') (slot (phys ?M') cr3 (window_page win i) 3)) js,
         ?M'\<lparr>phys := store_all store64 (phys ?M')
            (map (\<lambda>i. (slot (phys ?M') cr3 (window_page win i) 3,
                       load64 (phys ?M') (slot (phys ?M') cr3 (region_base big i) 2))) js)\<rparr>)"
    using Cons.prems tables_apart_store [OF Cons.prems(6) w] avw avr
    by (intro Cons.IH) (simp_all add: mem_simps)
  have eq1: "map (\<lambda>i. load64 (phys ?M') (slot (phys ?M') cr3 (window_page win i) 3)) js =
        map (\<lambda>i. load64 ?m (slot ?m cr3 (window_page win i) 3)) js"
    using avw ap by (simp add: mem_simps mem64.load_store_apart)
  have eq2: "map (\<lambda>i. (slot (phys ?M') cr3 (window_page win i) 3,
                       load64 (phys ?M') (slot (phys ?M') cr3 (region_base big i) 2))) js =
      map (\<lambda>i. (slot ?m cr3 (window_page win i) 3,
                       load64 ?m (slot ?m cr3 (region_base big i) 2))) js"
    using avw avr by (simp add: mem_simps)
  show ?case
    using Cons.prems IH [unfolded eq1 eq2] by (simp add: translate_region change_pte_eq)
qed

lemma unmap_window_eq:
  assumes "devmem_open M"
    and "\<forall>i\<in>fst ` set os. canonical (window_page win i) \<and> upper_ok (phys M) cr3 (window_page win i)"
    and "tables_apart (phys M) cr3 ws vs" and "window_page win ` fst ` set os \<subseteq> ws"
  shows "unmap_window u M cr3 win os =
    Inr (M\<lparr>phys := store_all store64 (phys M)
            (map (\<lambda>(i, old). (slot (phys M) cr3 (window_page win i) 3, old)) os)\<rparr>)"
  using assms
proof (induction os arbitrary: M)
  case Nil
  then show ?case by simp
next
  case (Cons x os)
  obtain i old where x: "x = (i, old)" by (cases x)
  let ?m = "phys M"
  let ?s = "slot ?m cr3 (window_page win i) 3"
  let ?M' = "M\<lparr>phys := store64 ?m ?s old\<rparr>"
  have w: "window_page win i \<in> ws" using Cons.prems(4) x by simp
  have av: "walk_avoids ?m cr3 (window_page win j) ?s" if "(j, y) \<in> set os" for j y
    using tables_apartD(1) [OF Cons.prems(3) w] Cons.prems(4) that x by force
  have IH: "unmap_window u ?M' cr3 win os =
    Inr (?M'\<lparr>phys := store_all store64 (phys ?M')
            (map (\<lambda>(i, old). (slot (phys ?M') cr3 (window_page win i) 3, old)) os)\<rparr>)"
    using Cons.prems tables_apart_store [OF Cons.prems(3) w] av x
    by (intro Cons.IH) (auto simp: mem_simps)
  have eq: "map (\<lambda>(i, old). (slot (phys ?M') cr3 (window_page win i) 3, old)) os =
      map (\<lambda>(i, old). (slot ?m cr3 (window_page win i) 3, old)) os"
    using av by (auto simp: mem_simps)
  show ?case
    using Cons.prems IH [unfolded eq] x by (simp add: change_pte_eq)
qed

lemma unat_drop_bit_of_nat:
  "n < 2 ^ 64 \<Longrightarrow> unat (drop_bit k (of_nat n :: u64)) = n div 2 ^ k"
  by (subst unat_drop_bit_eq) (simp only: u64_of_nat drop_bit_eq_div)

lemma unat_drop_bit_vpage:
  "4096 * p < 2 ^ 64 \<Longrightarrow> unat (drop_bit k (vpage p)) = 4096 * p div 2 ^ k"
  unfolding vpage_def by (rule unat_drop_bit_of_nat)

lemma table_index_of_nat:
  assumes "n < 2 ^ 64" and "l < 4"
  shows "table_index (of_nat n) l = of_nat (n div 2 ^ (12 + 9 * l) mod 512)"
proof -
  have sh: "translation_shifts ! l = 12 + 9 * l"
    using assms(2) by (auto simp: translation_shifts_def less_Suc_eq numeral_eq_Suc)
  have "unat (table_index (of_nat n) l) = (n div 2 ^ (12 + 9 * l)) mod 512"
    using assms(1) unfolding table_index_def sh pte_per_pde_def
    by (simp add: unsigned_and_eq unat_drop_bit_of_nat and_511_mod)
  then show ?thesis by (metis u64_of_nat_unat)
qed

lemma table_index_page:
  assumes "off < 4096" and "4096 * p + off < 2 ^ 64" and "l < 4"
  shows "table_index (of_nat (4096 * p + off)) l = of_nat (p div 512 ^ l mod 512)"
proof -
  have "(4096 * p + off) div 2 ^ (12 + 9 * l) = (4096 * p + off) div 4096 div 512 ^ l"
    by (simp add: power_add power_mult div_mult2_eq)
  also have "(4096 * p + off) div 4096 = p" using assms(1) by simp
  finally show ?thesis using table_index_of_nat [OF assms(2,3)] by simp
qed

lemma slot_cong:
  assumes "\<And>l. l < 4 \<Longrightarrow> 3 - d \<le> l \<Longrightarrow> table_index v l = table_index w l" and "d \<le> 3"
  shows "slot m cr3 v d = slot m cr3 w d"
  using assms
proof (induction d)
  case 0
  then show ?case by (simp add: slot.simps)
next
  case (Suc d)
  then have "slot m cr3 v d = slot m cr3 w d" by auto
  moreover have "table_index v (2 - d) = table_index w (2 - d)" using Suc.prems by simp
  ultimately show ?case by (simp add: slot.simps)
qed

lemma canonical_low: "n < 2 ^ 47 \<Longrightarrow> canonical (of_nat n)"
proof -
  assume n: "n < 2 ^ 47"
  then have "unat (drop_bit 48 (of_nat n :: u64)) = 0"
    by (simp add: unat_drop_bit_of_nat)
  then show ?thesis by (simp add: canonical_def unat_eq_zero)
qed

lemma window_page_vpage: "window_page (vpage W) i = vpage (W + i)"
  by (simp add: window_page_def vpage_def push_bit_of_nat push_bit_eq_mult algebra_simps)

lemma region_base_vpage:
  assumes "4096 * B < 2 ^ 64"
  shows "region_base (vpage B) i = vpage (512 * (B div 512 + i))"
proof -
  have "unat (vpage B AND NOT (mask 21)) = 2 ^ 21 * (B div 512)"
  proof -
    have "vpage B AND NOT (mask 21) = push_bit 21 (drop_bit 21 (vpage B))"
      by (rule bit_word_eqI) (auto simp: bit_simps)
    moreover have "unat (drop_bit 21 (vpage B)) = B div 512"
      using assms by (simp add: unat_drop_bit_vpage)
    moreover have "2 ^ 21 * (B div 512) < 2 ^ 64" using assms by simp
    ultimately show ?thesis by (simp add: push_bit_eq_mult unat_word_ariths)
  qed
  then have "vpage B AND NOT (mask 21) = of_nat (2 ^ 21 * (B div 512))"
    by (metis u64_of_nat_unat)
  then show ?thesis
    by (simp add: region_base_def vpage_def pte_per_pde_def mask_eq_exp_minus_1 algebra_simps)
qed

lemma split_cells: "4096 * W + 8 * q = 4096 * (W + q div 512) + 8 * (q mod 512)" for q :: nat
proof -
  have *: "q = 512 * d + r \<Longrightarrow> 4096 * W + 8 * q = 4096 * (W + d) + 8 * r" for d r :: nat
    by simp
  show ?thesis by (rule *) simp
qed

lemma pte_cell_vpage:
  assumes "4096 * B < 2 ^ 64"
  shows "pte_cell (vpage W) (vpage B) k = of_nat (4096 * (W + (B mod 512 + k) div 512)
    + 8 * ((B mod 512 + k) mod 512))"
proof -
  have "unat (drop_bit 12 (vpage B) AND 511) = B mod 512"
    using assms by (simp add: unsigned_and_eq unat_drop_bit_vpage and_511_mod)
  then have "drop_bit 12 (vpage B) AND 511 = of_nat (B mod 512)"
    by (metis u64_of_nat_unat)
  then have "pte_cell (vpage W) (vpage B) k = of_nat (4096 * W + 8 * (B mod 512 + k))"
    by (simp add: pte_cell_def pte_per_pde_def vpage_def algebra_simps)
  also have "4096 * W + 8 * (B mod 512 + k) = 4096 * (W + (B mod 512 + k) div 512)
    + 8 * ((B mod 512 + k) mod 512)"
    by (rule split_cells)
  finally show ?thesis .
qed

lemma stores_walk:
  assumes "tables_apart m cr3 ws vs" and "fst ` set xs \<subseteq> (\<lambda>w. slot m cr3 w 3) ` ws"
    and "v \<in> ws \<union> vs"
  shows "d \<le> 3 \<Longrightarrow> slot (store_all store64 m xs) cr3 v d = slot m cr3 v d"
    and "d < 3 \<Longrightarrow> load64 (store_all store64 m xs) (slot m cr3 v d) = load64 m (slot m cr3 v d)"
    and "upper_ok (store_all store64 m xs) cr3 v = upper_ok m cr3 v"
    and "tables_apart (store_all store64 m xs) cr3 ws vs"
proof -
  have "(\<forall>d\<le>3. slot (store_all store64 m xs) cr3 v d = slot m cr3 v d) \<and>
    (\<forall>d<3. load64 (store_all store64 m xs) (slot m cr3 v d) = load64 m (slot m cr3 v d)) \<and>
    tables_apart (store_all store64 m xs) cr3 ws vs"
    using assms(1,2)
  proof (induction xs arbitrary: m)
    case Nil
    then show ?case by simp
  next
    case (Cons x xs)
    obtain a y where x: "x = (a, y)" by (cases x)
    with Cons.prems obtain w where w: "w \<in> ws" "a = slot m cr3 w 3" by auto
    let ?m' = "store64 m a y"
    have av: "walk_avoids m cr3 u a" if "u \<in> ws \<union> vs" for u
      using tables_apartD(1) [OF Cons.prems(1) w(1) that] w(2) by simp
    have ta: "tables_apart ?m' cr3 ws vs"
      using tables_apart_store [OF Cons.prems(1) w(1)] w(2) by simp
    have "(\<lambda>w. slot ?m' cr3 w 3) ` ws = (\<lambda>w. slot m cr3 w 3) ` ws"
      using av by (intro image_cong) (auto simp: mem_simps)
    then have "fst ` set xs \<subseteq> (\<lambda>w. slot ?m' cr3 w 3) ` ws"
      using Cons.prems(2) by simp
    from Cons.IH [OF ta this] show ?case
      using av [OF assms(3)] by (simp add: x mem_simps)
  qed
  then show "d \<le> 3 \<Longrightarrow> slot (store_all store64 m xs) cr3 v d = slot m cr3 v d"
    and "d < 3 \<Longrightarrow> load64 (store_all store64 m xs) (slot m cr3 v d) = load64 m (slot m cr3 v d)"
    and "upper_ok (store_all store64 m xs) cr3 v = upper_ok m cr3 v"
    and "tables_apart (store_all store64 m xs) cr3 ws vs"
    by (auto simp: upper_ok_def)
qed

lemma frame_or_offset:
  "off < 4096 \<Longrightarrow> (e AND frame_mask) OR of_nat off = (e AND frame_mask) + (of_nat off :: u64)"
proof -
  assume off: "off < 4096"
  have "\<not> bit (of_nat off :: u64) n" if "12 \<le> n" for n
  proof -
    have "take_bit 12 off = off" using off by (simp add: take_bit_nat_eq_self)
    then have "bit off n \<longleftrightarrow> n < 12 \<and> bit off n" by (metis bit_take_bit_iff)
    with that show ?thesis by (simp add: bit_simps)
  qed
  moreover have "\<not> bit frame_mask n" if "n < 12" for n
  proof -
    have "take_bit 12 frame_mask = 0" by (simp add: frame_mask_def)
    then have "\<not> bit (take_bit 12 frame_mask) n" by simp
    with that show ?thesis by (simp add: bit_take_bit_iff)
  qed
  ultimately have "(e AND frame_mask) AND of_nat off = 0"
    by (intro bit_word_eqI) (metis bit_and_iff bit_0_eq bot_apply bot_bool_def not_le)
  then show ?thesis by (simp add: disjunctive_add_eq_or)
qed

lemma page_offset: "off < 4096 \<Longrightarrow> 4096 * p + off < 2 ^ 64 \<Longrightarrow>
   of_nat (4096 * p + off) AND 0xfff = (of_nat off :: u64)"
proof -
  assume *: "off < 4096" "4096 * p + off < 2 ^ 64"
  have "unat (of_nat (4096 * p + off) AND 0xfff :: u64) = (4096 * p + off) AND 4095"
    unfolding unsigned_and_eq u64_of_nat [OF *(2)] by simp
  also have "\<dots> = off" using *(1) by (simp add: and_4095_mod)
  finally show ?thesis by (metis u64_of_nat_unat)
qed

lemma vpage_inj: "p < 2 ^ 52 \<Longrightarrow> q < 2 ^ 52 \<Longrightarrow> vpage p = vpage q \<longleftrightarrow> p = q"
proof -
  assume *: "p < 2 ^ 52" "q < 2 ^ 52"
  then have "4096 * p < 2 ^ 64" "4096 * q < 2 ^ 64" by simp_all
  then have "unat (vpage p) = 4096 * p" "unat (vpage q) = 4096 * q"
    unfolding vpage_def by (simp_all only: u64_of_nat)
  then show ?thesis by (metis mult_left_cancel zero_neq_numeral)
qed

text \<open>The window has room for the entries of every page of the buffer.\<close>

lemma window_covers:
  fixes A B k :: nat
  assumes "k < A"
  shows "(B mod 512 + k) div 512 < (A + 1022) div 512"
proof -
  have "B mod 512 + k + 512 \<le> A + 1022" using assms mod_less_divisor [of 512 B] by simp
  then have "(B mod 512 + k + 512) div 512 \<le> (A + 1022) div 512" by (rule div_le_mono)
  moreover have "(B mod 512 + k + 512) div 512 = (B mod 512 + k) div 512 + 1" by (rule div_add_self2) simp
  ultimately show ?thesis by linarith
qed

lemma page_in_region:
  fixes B k :: nat
  shows "(B + k) div 512 = B div 512 + (B mod 512 + k) div 512"
    and "(B + k) mod 512 = (B mod 512 + k) mod 512"
proof -
  have "(B + k) div 512 = (512 * (B div 512) + (B mod 512 + k)) div 512" by simp
  also have "\<dots> = B div 512 + (B mod 512 + k) div 512" by (simp only: div_mult_self4)
  finally show "(B + k) div 512 = B div 512 + (B mod 512 + k) div 512" .
  show "(B + k) mod 512 = (B mod 512 + k) mod 512" by (simp add: mod_add_left_eq)
qed

lemma table_index_vpage:
  assumes "p < 2 ^ 52" and "l < 4"
  shows "table_index (vpage p) l = of_nat (p div 512 ^ l mod 512)"
proof -
  have "4096 * p + 0 < 2 ^ 64" using assms(1) by simp
  from table_index_page [OF _ this assms(2)] show ?thesis
    unfolding vpage_def by (simp only: add_0_right zero_less_numeral)
qed

lemma slot2_same_region:
  assumes "p < 2 ^ 52" and "q < 2 ^ 52" and "p div 512 = q div 512"
  shows "slot m cr3 (vpage p) 2 = slot m cr3 (vpage q) 2"
proof (rule slot_cong)
  fix l :: nat
  assume l: "l < 4" "3 - 2 \<le> l"
  then obtain l' where l': "l = Suc l'" by (cases l) auto
  have "p div 512 ^ l = q div 512 ^ l"
    using assms(3) by (simp add: l' div_mult2_eq)
  then show "table_index (vpage p) l = table_index (vpage q) l"
    using assms(1,2) l(1) by (simp only: table_index_vpage)
qed simp

lemma window_settingD:
  assumes "window_setting m cr3 W B A n"
  shows "n = (A + 1022) div 512" and "W + n \<le> 2 ^ 35" and "B + A + 1024 \<le> 2 ^ 35"
    and "i < n \<Longrightarrow> upper_ok m cr3 (vpage (W + i))"
    and "k < A \<Longrightarrow> upper_ok m cr3 (vpage (B + k))"
    and "i < n \<Longrightarrow> region_ok m cr3 (vpage (512 * (B div 512 + i)))"
    and "tables_apart m cr3 (vpage ` ({W..<W + n} \<union> {B..<B + A}))
       ((\<lambda>i. vpage (512 * (B div 512 + i))) ` {..<n})"
proof -
  have all: "\<forall>p\<in>{W..<W + n} \<union> {B..<B + A}. upper_ok m cr3 (vpage p)"
    using assms unfolding window_setting_def by blast
  show "i < n \<Longrightarrow> upper_ok m cr3 (vpage (W + i))" by (rule bspec [OF all]) simp
  show "k < A \<Longrightarrow> upper_ok m cr3 (vpage (B + k))" by (rule bspec [OF all]) simp
qed (use assms in \<open>unfold window_setting_def, blast\<close>)+

lemma window_slot_apart:
  assumes "window_setting m cr3 W B A n" "i < n" "k < A"
  shows "apart64 (slot m cr3 (vpage (W + i)) 3) (slot m cr3 (vpage (B + k)) 3)"
proof (rule tables_apartD(2) [OF window_settingD(7) [OF assms(1)]])
  have "W + i \<noteq> B + k" "W + i < 2 ^ 52" "B + k < 2 ^ 52"
    using assms unfolding window_setting_def by auto
  then show "vpage (W + i) \<noteq> vpage (B + k)" using vpage_inj by blast
qed (use assms in auto)

lemma window_slots_apart:
  assumes "window_setting m cr3 W B A n" "i < n" "j < n" "i \<noteq> j"
  shows "apart64 (slot m cr3 (vpage (W + i)) 3) (slot m cr3 (vpage (W + j)) 3)"
proof (rule tables_apartD(2) [OF window_settingD(7) [OF assms(1)]])
  have "W + i \<noteq> W + j" "W + i < 2 ^ 52" "W + j < 2 ^ 52"
    using assms unfolding window_setting_def by auto
  then show "vpage (W + i) \<noteq> vpage (W + j)" using vpage_inj by blast
qed (use assms in auto)

lemma pte_slots_apart:
  assumes "window_setting m cr3 W B A n" "i < A" "j < A" "i \<noteq> j"
  shows "apart64 (slot m cr3 (vpage (B + i)) 3) (slot m cr3 (vpage (B + j)) 3)"
proof (rule tables_apartD(2) [OF window_settingD(7) [OF assms(1)]])
  have "B + i \<noteq> B + j" "B + i < 2 ^ 52" "B + j < 2 ^ 52"
    using assms unfolding window_setting_def by auto
  then show "vpage (B + i) \<noteq> vpage (B + j)" using vpage_inj by blast
qed (use assms in auto)

lemma window_writes_addrs:
  "fst ` set (window_writes m cr3 W B n) = (\<lambda>i. slot m cr3 (vpage (W + i)) 3) ` {..<n}"
  by (simp add: window_writes_def image_image atLeast0LessThan)

lemma pte_writes_addrs:
  "fst ` set (pte_writes m cr3 B kxs) = (\<lambda>k. slot m cr3 (vpage (B + k)) 3) ` fst ` set kxs"
  by (force simp: pte_writes_def)

lemma load_window_writes:
  assumes S: "window_setting m cr3 W B A n" and "i < n" "fst ` set kxs \<subseteq> {..<A}"
  shows "load64 (store_all store64 m (window_writes m cr3 W B n @ pte_writes m cr3 B kxs))
       (slot m cr3 (vpage (W + i)) 3) = load64 m (slot m cr3 (vpage (512 * (B div 512 + i))) 2)"
proof -
  have "load64 (store_all store64 m (window_writes m cr3 W B n @ pte_writes m cr3 B kxs))
       (slot m cr3 (vpage (W + i)) 3) =
     load64 (store_all store64 m (window_writes m cr3 W B n)) (slot m cr3 (vpage (W + i)) 3)"
    unfolding mem64.store_all_append
    by (rule mem64.load_store_all_apart)
      (use assms in \<open>auto simp: pte_writes_addrs intro: apart64_sym window_slot_apart\<close>)
  also have "[0..<n] = [0..<i] @ i # [Suc i..<n]"
    using assms(2) by (metis le_add1 less_imp_le_nat upt_add_eq_append upt_conv_Cons add_0 le_add_diff_inverse)
  then have "store_all store64 m (window_writes m cr3 W B n) =
    store_all store64 (store64 (store_all store64 m (window_writes m cr3 W B i))
       (slot m cr3 (vpage (W + i)) 3) (load64 m (slot m cr3 (vpage (512 * (B div 512 + i))) 2)))
     (map (\<lambda>i. (slot m cr3 (vpage (W + i)) 3,
               load64 m (slot m cr3 (vpage (512 * (B div 512 + i))) 2))) [Suc i..<n])"
    by (simp add: window_writes_def mem64.store_all_append)
  also have "load64 \<dots> (slot m cr3 (vpage (W + i)) 3) =
    load64 m (slot m cr3 (vpage (512 * (B div 512 + i))) 2)"
    by (subst mem64.load_store_all_apart)
      (use assms in \<open>auto simp: mem64.load_store_same intro!: window_slots_apart\<close>)
  finally show ?thesis .
qed

lemma window_mmu:
  assumes S: "window_setting m cr3 W B A n" and k: "k < A" and kxs: "fst ` set kxs \<subseteq> {..<A}"
  shows "mmu (store_all store64 m (window_writes m cr3 W B n @ pte_writes m cr3 B kxs)) cr3
     (pte_cell (vpage W) (vpage B) k) = Some (slot m cr3 (vpage (B + k)) 3)"
proof -
  let ?xs = "window_writes m cr3 W B n @ pte_writes m cr3 B kxs"
  let ?m = "store_all store64 m ?xs"
  define q where "q = B mod 512 + k"
  define j off where "j = q div 512" and "off = 8 * (q mod 512)"
  let ?e = "load64 m (slot m cr3 (vpage (B + k)) 2)"
  let ?va = "pte_cell (vpage W) (vpage B) k"
  have j: "j < n"
    using window_covers [OF k, of B] window_settingD(1) [OF S] by (simp add: j_def q_def)
  have bounds: "W + j < 2 ^ 52" "B + k < 2 ^ 52" "4096 * B < 2 ^ 64"
    using window_settingD(2,3) [OF S] j k by simp_all
  have "q mod 512 < 512" by simp
  then have off: "off < 4096" by (simp add: off_def)
  have va: "?va = of_nat (4096 * (W + j) + off)"
    unfolding j_def off_def q_def by (rule pte_cell_vpage [OF bounds(3)])
  have va64: "4096 * (W + j) + off < 2 ^ 64" using bounds(1) off by simp
  have idx: "table_index ?va l = table_index (vpage (W + j)) l" if "l < 4" for l
    unfolding va table_index_page [OF off va64 that] table_index_vpage [OF bounds(1) that] ..
  have slots: "slot m' cr3 ?va d = slot m' cr3 (vpage (W + j)) d" if "d \<le> 3" for m' d
    using that by (intro slot_cong) (simp_all add: idx)
  have up: "upper_ok m' cr3 ?va = upper_ok m' cr3 (vpage (W + j))" for m'
    by (simp add: upper_ok_def slots)
  have addrs: "fst ` set ?xs \<subseteq> (\<lambda>w. slot m cr3 w 3) ` vpage ` ({W..<W + n} \<union> {B..<B + A})"
    using kxs by (auto simp: window_writes_addrs pte_writes_addrs image_Un intro!: imageI)
  have mem: "vpage (W + j) \<in> vpage ` ({W..<W + n} \<union> {B..<B + A}) \<union>
      (\<lambda>i. vpage (512 * (B div 512 + i))) ` {..<n}"
    using j by auto
  note walk = stores_walk [OF window_settingD(7) [OF S] addrs mem]
  have reg: "(B + k) div 512 = B div 512 + j"
    unfolding j_def q_def by (rule page_in_region(1))
  then have "512 * (B div 512 + j) \<le> B + k" by (metis times_div_less_eq_dividend)
  then have "512 * (B div 512 + j) < 2 ^ 52" using bounds(2) by (rule le_less_trans)
  then have e: "load64 m (slot m cr3 (vpage (512 * (B div 512 + j))) 2) = ?e"
    using slot2_same_region [OF _ bounds(2), of "512 * (B div 512 + j)" m cr3]
    by (simp add: reg)
  have ld: "load64 ?m (slot ?m cr3 ?va 3) = ?e"
    using load_window_writes [OF S j kxs] e by (simp add: slots walk(1))
  have upok: "upper_ok ?m cr3 ?va"
    using window_settingD(4) [OF S j] by (simp add: up walk(3))
  have "pte_present ?e" using upper_okD(1) [OF window_settingD(5) [OF S k], of 2] by simp
  then have "mmu ?m cr3 ?va = Some ((?e AND frame_mask) OR (?va AND 0xfff))"
    by (simp add: mmu_def Let_def ld upok)
  also have "(?e AND frame_mask) OR (?va AND 0xfff) = (?e AND frame_mask) + of_nat off"
    unfolding va page_offset [OF off va64] by (rule frame_or_offset [OF off])
  also have "\<dots> = slot m cr3 (vpage (B + k)) 3"
  proof -
    have "table_index (vpage (B + k)) 0 = of_nat (q mod 512)"
      using table_index_vpage [OF bounds(2), of 0] page_in_region(2) [of B k]
      by (simp add: q_def)
    then show ?thesis by (simp add: slot_unfold(3) off_def)
  qed
  finally show ?thesis .
qed

lemma num_pde_to_map_eq:
  assumes "unat ASIZE \<le> 16384"
  shows "num_pde_to_map ASIZE = (unat ASIZE + 1022) div 512"
proof -
  have "unat (1022 + ASIZE) = unat ASIZE + 1022"
    using assms by (subst unat_add_lem [THEN iffD1]) simp_all
  moreover have "ASIZE + 2 * of_nat pte_per_pde - 2 = 1022 + ASIZE"
    by (simp add: pte_per_pde_def)
  ultimately show ?thesis
    by (simp add: num_pde_to_map_def pte_per_pde_def unat_div_distrib)
qed

lemma pte_writes_append: "pte_writes m cr3 B (xs @ ys) = pte_writes m cr3 B xs @ pte_writes m cr3 B ys"
  by (simp add: pte_writes_def)

lemma poke_ptes_eq:
  assumes S: "window_setting m cr3 W B A n"
    and "fst ` set kxs0 \<subseteq> {..<A}" and "fst ` set kxs \<subseteq> {..<A}"
  shows "poke_ptes (store_all store64 m (window_writes m cr3 W B n @ pte_writes m cr3 B kxs0)) cr3
      (vpage W) (vpage B) kxs =
    Some (store_all store64 m (window_writes m cr3 W B n @ pte_writes m cr3 B (kxs0 @ kxs)))"
  using assms(2,3)
proof (induction kxs arbitrary: kxs0)
  case Nil
  then show ?case by simp
next
  case (Cons kx kxs)
  obtain k x where kx: "kx = (k, x)" by (cases kx)
  with Cons.prems have k: "k < A" by simp
  have step: "cpu_store (store_all store64 m (window_writes m cr3 W B n @ pte_writes m cr3 B kxs0))
      cr3 (pte_cell (vpage W) (vpage B) k) x =
    Some (store_all store64 m (window_writes m cr3 W B n @ pte_writes m cr3 B (kxs0 @ [(k, x)])))"
    using window_mmu [OF S k Cons.prems(1)]
    by (simp add: cpu_store_def pte_writes_append mem64.store_all_append)
      (simp add: pte_writes_def)
  show ?case
    using Cons.IH [of "kxs0 @ [(k, x)]"] Cons.prems k by (simp add: kx step)
qed

lemma load_pte_window:
  assumes "window_setting m cr3 W B A n" and "k < A"
  shows "load64 (store_all store64 m (window_writes m cr3 W B n)) (slot m cr3 (vpage (B + k)) 3) =
    load64 m (slot m cr3 (vpage (B + k)) 3)"
  by (rule mem64.load_store_all_apart)
    (use assms in \<open>auto simp: window_writes_addrs intro: window_slot_apart\<close>)

lemma read_ptes_eq:
  assumes S: "window_setting m cr3 W B A n" and "set ks \<subseteq> {..<A}"
  shows "read_ptes (store_all store64 m (window_writes m cr3 W B n)) cr3 (vpage W) (vpage B) ks =
    Some (map (\<lambda>k. load64 m (slot m cr3 (vpage (B + k)) 3)) ks)"
  using assms(2)
proof (induction ks)
  case Nil
  then show ?case by simp
next
  case (Cons k ks)
  then have k: "k < A" by simp
  have "cpu_load (store_all store64 m (window_writes m cr3 W B n)) cr3
      (pte_cell (vpage W) (vpage B) k) = Some (load64 m (slot m cr3 (vpage (B + k)) 3))"
    using window_mmu [OF S k, of "[]"] load_pte_window [OF S k]
    by (simp add: cpu_load_def pte_writes_def)
  with Cons show ?case by simp
qed

lemma window_upper:
  assumes "window_setting m cr3 W B A n" and "p < 2 ^ 35"
  shows "canonical (vpage p)"
  unfolding vpage_def by (rule canonical_low) (use assms(2) in simp)

lemma map_window_setting:
  assumes S: "window_setting (phys M) cr3 W B A n" and "devmem_open M"
  shows "map_window u M cr3 (vpage W) (vpage B) [0..<n] =
    Inr (map (\<lambda>i. load64 (phys M) (slot (phys M) cr3 (vpage (W + i)) 3)) [0..<n],
         M\<lparr>phys := store_all store64 (phys M) (window_writes (phys M) cr3 W B n)\<rparr>)"
proof -
  have B64: "4096 * B < 2 ^ 64" using window_settingD(3) [OF S] by simp
  note reg = region_base_vpage [OF B64]
  have wb: "W + i < 2 ^ 35" if "i < n" for i using window_settingD(2) [OF S] that by simp
  have rb: "512 * (B div 512 + i) < 2 ^ 35" if "i < n" for i
  proof -
    have "Suc i \<le> (A + 1022) div 512" using that window_settingD(1) [OF S] by simp
    then have "512 * Suc i \<le> 512 * ((A + 1022) div 512)" by (rule mult_le_mono2)
    also have "\<dots> \<le> A + 1022" by (rule times_div_less_eq_dividend)
    finally have "512 * i < A + 1022" by simp
    moreover have "512 * (B div 512) \<le> B" by (rule times_div_less_eq_dividend)
    ultimately show ?thesis using window_settingD(3) [OF S] unfolding distrib_left by linarith
  qed
  have inj: "inj_on (window_page (vpage W)) (set [0..<n])"
  proof (rule inj_onI)
    fix i j
    assume "i \<in> set [0..<n]" "j \<in> set [0..<n]"
      and eq: "window_page (vpage W) i = window_page (vpage W) j"
    then have "W + i < 2 ^ 52" "W + j < 2 ^ 52" using wb [of i] wb [of j] by simp_all
    from vpage_inj [OF this] eq show "i = j" unfolding window_page_vpage by simp
  qed
  have "map_window u M cr3 (vpage W) (vpage B) [0..<n] =
    Inr (map (\<lambda>i. load64 (phys M) (slot (phys M) cr3 (window_page (vpage W) i) 3)) [0..<n],
         M\<lparr>phys := store_all store64 (phys M)
            (map (\<lambda>i. (slot (phys M) cr3 (window_page (vpage W) i) 3,
              load64 (phys M) (slot (phys M) cr3 (region_base (vpage B) i) 2))) [0..<n])\<rparr>)"
  proof (rule map_window_eq [OF assms(2) _ _ _ _ window_settingD(7) [OF S]])
    show "distinct (map (window_page (vpage W)) [0..<n])"
      using inj by (simp add: distinct_map)
    show "\<forall>i\<in>set [0..<n]. canonical (window_page (vpage W) i) \<and> canonical (region_base (vpage B) i)"
      unfolding window_page_vpage reg using window_upper [OF S] wb rb by simp
    show "\<forall>i\<in>set [0..<n]. upper_ok (phys M) cr3 (window_page (vpage W) i)"
      unfolding window_page_vpage using window_settingD(4) [OF S] by simp
    show "\<forall>i\<in>set [0..<n]. region_ok (phys M) cr3 (region_base (vpage B) i)"
      unfolding reg using window_settingD(6) [OF S] by simp
    show "window_page (vpage W) ` set [0..<n] \<subseteq> vpage ` ({W..<W + n} \<union> {B..<B + A})"
      by (auto simp: window_page_vpage)
    show "region_base (vpage B) ` set [0..<n] \<subseteq> (\<lambda>i. vpage (512 * (B div 512 + i))) ` {..<n}"
      unfolding reg by auto
  qed
  then show ?thesis unfolding window_page_vpage reg window_writes_def .
qed

lemma phys_upd: "phys (M\<lparr>phys := m\<rparr>) = m"
  by simp

lemma unmap_window_setting:
  assumes S: "window_setting (phys M) cr3 W B A n" and M: "devmem_open M"
  defines "m1 \<equiv> store_all store64 (phys M) (window_writes (phys M) cr3 W B n)"
    and "olds \<equiv> map (\<lambda>i. load64 (phys M) (slot (phys M) cr3 (vpage (W + i)) 3)) [0..<n]"
  shows "unmap_window u (M\<lparr>phys := m1\<rparr>) cr3 (vpage W) (zip [0..<n] olds) = Inr M"
proof -
  let ?m = "phys M"
  let ?ws = "map (\<lambda>i. slot ?m cr3 (vpage (W + i)) 3) [0..<n]"
  let ?V = "vpage ` ({W..<W + n} \<union> {B..<B + A})"
  have mem: "vpage (W + i) \<in> ?V \<union> (\<lambda>i. vpage (512 * (B div 512 + i))) ` {..<n}" if "i < n" for i
    using that by auto
  have addrs: "fst ` set (window_writes ?m cr3 W B n) \<subseteq> (\<lambda>w. slot ?m cr3 w 3) ` ?V"
    by (auto simp: window_writes_addrs)
  note walk = stores_walk [OF window_settingD(7) [OF S] addrs mem, folded m1_def]
  have wb: "W + i < 2 ^ 35" if "i < n" for i using window_settingD(2) [OF S] that by simp
  have ids: "i < n" if "i \<in> fst ` set (zip [0..<n] olds)" for i
    using that by (auto dest: set_zip_leftD)
  have sub: "vpage (W + i) \<in> ?V" if "(i, x) \<in> set (zip [0..<n] olds)" for i x
    using ids [of i] that by force
  have "n = 0 \<or> tables_apart m1 cr3 ?V ((\<lambda>i. vpage (512 * (B div 512 + i))) ` {..<n})"
    using walk(4) by auto
  then have "unmap_window u (M\<lparr>phys := m1\<rparr>) cr3 (vpage W) (zip [0..<n] olds) =
    Inr ((M\<lparr>phys := m1\<rparr>)\<lparr>phys := store_all store64 (phys (M\<lparr>phys := m1\<rparr>))
      (map (\<lambda>(i, old). (slot (phys (M\<lparr>phys := m1\<rparr>)) cr3 (window_page (vpage W) i) 3, old))
         (zip [0..<n] olds))\<rparr>)"
    using ids wb walk(3) window_settingD(4) [OF S] window_upper [OF S] M sub
    by (elim disjE) (simp, intro unmap_window_eq, auto simp: window_page_vpage)
  also have "map (\<lambda>(i, old). (slot (phys (M\<lparr>phys := m1\<rparr>)) cr3 (window_page (vpage W) i) 3, old))
         (zip [0..<n] olds) = map (\<lambda>b. (b, load64 ?m b)) ?ws"
    by (rule nth_equalityI) (simp_all add: window_page_vpage walk(1) olds_def)
  also have "store_all store64 (phys (M\<lparr>phys := m1\<rparr>)) (map (\<lambda>b. (b, load64 ?m b)) ?ws) = ?m"
    unfolding phys_upd m1_def
    by (rule mem64.store_all_undo)
      (auto simp: window_writes_addrs intro: window_slots_apart [OF S])
  finally show ?thesis by simp
qed

lemma restore_ptes_setting:
  assumes S: "window_setting m cr3 W B A n" and kxs: "fst ` set kxs \<subseteq> {..<A}"
  shows "store_all store64 m (window_writes m cr3 W B n @ pte_writes m cr3 B
      (kxs @ zip [0..<A] (map (\<lambda>k. load64 m (slot m cr3 (vpage (B + k)) 3)) [0..<A]))) =
    store_all store64 m (window_writes m cr3 W B n)"
proof -
  let ?m1 = "store_all store64 m (window_writes m cr3 W B n)"
  let ?ps = "map (\<lambda>k. slot m cr3 (vpage (B + k)) 3) [0..<A]"
  let ?pt = "map (\<lambda>k. load64 m (slot m cr3 (vpage (B + k)) 3)) [0..<A]"
  have zip_old: "pte_writes m cr3 B (zip [0..<A] ?pt) = map (\<lambda>b. (b, load64 ?m1 b)) ?ps"
    by (rule nth_equalityI) (auto simp: pte_writes_def load_pte_window [OF S])
  have "fst ` set (pte_writes m cr3 B kxs) \<subseteq> set ?ps"
    using image_mono [OF kxs] by (simp add: pte_writes_addrs atLeast0LessThan)
  then show ?thesis
    unfolding pte_writes_append zip_old mem64.store_all_append
    by (rule mem64.store_all_undo) (auto intro: pte_slots_apart [OF S])
qed

lemma remap_run_eq:
  assumes S: "window_setting (phys M) cr3 W B (unat ASIZE) (num_pde_to_map ASIZE)"
    and M: "devmem_open M"
  defines "pt \<equiv> map (\<lambda>k. load64 (phys M) (slot (phys M) cr3 (vpage (B + k)) 3)) [0..<unat ASIZE]"
  assumes kxs: "\<And>kxs. probe pt = Inr kxs \<Longrightarrow> fst ` set kxs \<subseteq> {..<unat ASIZE}"
  shows "remap_run u u' M cr3 (vpage W) (vpage B) ASIZE probe =
    (case probe pt of Inl f \<Rightarrow> Inl f | Inr _ \<Rightarrow> Inr M)"
proof (cases "probe pt")
  case (Inl f)
  have "read_ptes (store_all store64 (phys M) (window_writes (phys M) cr3 W B (num_pde_to_map ASIZE)))
      cr3 (vpage W) (vpage B) [0..<unat ASIZE] = Some pt"
    unfolding pt_def by (rule read_ptes_eq [OF S]) auto
  then show ?thesis
    unfolding remap_run_def Let_def by (simp add: map_window_setting [OF S M] Inl)
next
  case (Inr kxs)
  let ?A = "unat ASIZE" and ?n = "num_pde_to_map ASIZE" and ?m = "phys M"
  let ?ww = "window_writes ?m cr3 W B ?n"
  note k = kxs [OF Inr]
  have rd: "read_ptes (store_all store64 ?m ?ww) cr3 (vpage W) (vpage B) [0..<?A] = Some pt"
    unfolding pt_def by (rule read_ptes_eq [OF S]) auto
  have pk: "poke_ptes (store_all store64 ?m ?ww) cr3 (vpage W) (vpage B) kxs =
      Some (store_all store64 ?m (?ww @ pte_writes ?m cr3 B kxs))"
    using poke_ptes_eq [OF S, of "[]" kxs] k by (simp add: pte_writes_def)
  have "fst ` set (zip [0..<?A] pt) \<subseteq> {..<?A}" by (auto dest: set_zip_leftD)
  then have "poke_ptes (store_all store64 ?m (?ww @ pte_writes ?m cr3 B kxs)) cr3
      (vpage W) (vpage B) (zip [0..<?A] pt) = Some (store_all store64 ?m ?ww)"
    using poke_ptes_eq [OF S k] restore_ptes_setting [OF S k] by (simp add: pt_def)
  then show ?thesis
    unfolding remap_run_def Let_def
    by (simp add: map_window_setting [OF S M] rd pk unmap_window_setting [OF S M] Inr)
qed

section \<open>A concrete setting\<close>

lemma demo_pages: "vpage 0 = 0" "vpage 1 = 0x1000" "vpage (Suc 0) = 0x1000" "vpage 2 = 0x2000"
  by (simp_all add: vpage_def)

lemma demo_page_slots:
  "slot demo_tables 0x1000 0 0 = 0x1000" "slot demo_tables 0x1000 0 (Suc 0) = 0x2000"
  "slot demo_tables 0x1000 0 2 = 0x3000"
  "slot demo_tables 0x1000 0x1000 0 = 0x1000" "slot demo_tables 0x1000 0x1000 (Suc 0) = 0x2000"
  "slot demo_tables 0x1000 0x1000 2 = 0x3000" "slot demo_tables 0x1000 0x1000 3 = 0x4008"
  "slot demo_tables 0x1000 0x2000 0 = 0x1000" "slot demo_tables 0x1000 0x2000 (Suc 0) = 0x2000"
  "slot demo_tables 0x1000 0x2000 2 = 0x3000" "slot demo_tables 0x1000 0x2000 3 = 0x4010"
  by (simp_all add: slot.simps slot_unfold demo_loads index_eval)

lemma demo_setting: "window_setting demo_tables 0x1000 2 1 1 1"
proof -
  have sets: "{2..<2 + 1} \<union> {1..<1 + 1} = {1, 2 :: nat}" "{..<1} = {0 :: nat}"
    "{2..<2 + 1} \<inter> {1..<1 + 1} = ({} :: nat set)" by auto
  show ?thesis
    unfolding window_setting_def sets tables_apart_def
    by (simp add: demo_pages demo_page_slots upper_ok_def region_ok_def less_3_cases less_2_cases
        demo_loads pte_present_def pte_large_def walk_avoids_def apart64_def)
qed

lemma demo_window: "num_pde_to_map 1 = 1"
  by (simp add: num_pde_to_map_def pte_per_pde_def)

section \<open>Properties\<close>

text \<open>
  C2: whatever entries the experiment stores through the window, and whichever pages of the
  buffer it does so for, \<^verbatim>\<open>main\<close> runs its set-up, its stores and its clean-up without a fault and
  leaves physical memory, page tables included, exactly as it was.
\<close>

theorem remap_run_restores:
  assumes "window_setting (phys M) cr3 W B (unat ASIZE) (num_pde_to_map ASIZE)"
    and "devmem_open M"
    and "\<forall>pt. \<exists>kxs. probe pt = Inr kxs \<and> fst ` set kxs \<subseteq> {..<unat ASIZE}"
  shows "remap_run u u' M cr3 (vpage W) (vpage B) ASIZE probe = Inr M"
proof -
  let ?pt = "map (\<lambda>k. load64 (phys M) (slot (phys M) cr3 (vpage (B + k)) 3)) [0..<unat ASIZE]"
  obtain kxs where k: "probe ?pt = Inr kxs" "fst ` set kxs \<subseteq> {..<unat ASIZE}"
    using assms(3) by blast
  then show ?thesis
    using remap_run_eq [OF assms(1,2), of probe u u'] by simp
qed

theorem remap_run_restores_witness:
  "remap_run (\<lambda>_. 7) (\<lambda>_. 9) demo_machine 0x1000 0x2000 0x1000 1
     (\<lambda>pt. Inr [(0, 0x7001), (0, hd pt), (0, 0)]) = Inr demo_machine"
  using remap_run_restores [of demo_machine "0x1000" 2 1 1
      "\<lambda>pt. Inr [(0, 0x7001), (0, hd pt), (0, 0)]" "\<lambda>_. 7" "\<lambda>_. 9"] demo_setting demo_open
  by (simp add: demo_window demo_pages demo_machine_def)

text \<open>
  C11: once the window is mapped, a store of the entry \<open>x\<close> to \<^verbatim>\<open>p_pte[k]\<close> by the processor
  succeeds and makes \<open>x\<close> the mapping of page \<open>k\<close> of the buffer.
\<close>

theorem window_edits_mapping:
  assumes "window_setting (phys M) cr3 W B A n" and "devmem_open M"
    and "map_window u M cr3 (vpage W) (vpage B) [0..<n] = Inr (olds, M1)"
    and "k < A" and "pte_present x"
  shows "\<exists>m'. cpu_store (phys M1) cr3 (pte_cell (vpage W) (vpage B) k) x = Some m' \<and>
    mmu m' cr3 (vpage (B + k)) = Some (x AND frame_mask)"
proof -
  let ?m = "phys M" and ?ww = "window_writes (phys M) cr3 W B n"
  let ?m' = "store_all store64 ?m (?ww @ pte_writes ?m cr3 B [(k, x)])"
  let ?v = "vpage (B + k)"
  have m1: "phys M1 = store_all store64 ?m ?ww"
    using assms(3) map_window_setting [OF assms(1,2)] by auto
  have st: "cpu_store (phys M1) cr3 (pte_cell (vpage W) (vpage B) k) x = Some ?m'"
    using poke_ptes_eq [OF assms(1), of "[]" "[(k, x)]"] assms(4)
    by (simp add: m1 pte_writes_def split: option.splits)
  have addrs: "fst ` set (?ww @ pte_writes ?m cr3 B [(k, x)]) \<subseteq>
      (\<lambda>w. slot ?m cr3 w 3) ` vpage ` ({W..<W + n} \<union> {B..<B + A})"
    using assms(4) by (auto simp: window_writes_addrs pte_writes_def)
  have mem: "?v \<in> vpage ` ({W..<W + n} \<union> {B..<B + A}) \<union>
      (\<lambda>i. vpage (512 * (B div 512 + i))) ` {..<n}"
    using assms(4) by auto
  note walk = stores_walk [OF window_settingD(7) [OF assms(1)] addrs mem]
  have up: "upper_ok ?m' cr3 ?v" using window_settingD(5) [OF assms(1,4)] walk(3) by simp
  have ld: "load64 ?m' (slot ?m' cr3 ?v 3) = x"
    unfolding walk(1) [OF order_refl]
    by (simp add: mem64.store_all_append pte_writes_def mem64.load_store_same)
  have lt: "B + k < 2 ^ 52" using window_settingD(3) [OF assms(1)] assms(4) by simp
  have "?v AND 0xfff = 0"
    using page_offset [of 0 "B + k"] lt by (simp add: vpage_def)
  then have "mmu ?m' cr3 ?v = Some (x AND frame_mask)"
    using up assms(5) by (simp add: mmu_def Let_def ld)
  with st show ?thesis by blast
qed

theorem window_edits_mapping_witness:
  "\<exists>olds M1 m'. map_window (\<lambda>_. 0) demo_machine 0x1000 0x2000 0x1000 [0] = Inr (olds, M1) \<and>
     cpu_store (phys M1) 0x1000 (pte_cell 0x2000 0x1000 0) 0x7001 = Some m' \<and>
     mmu m' 0x1000 0x1000 = Some 0x7000"
proof -
  have setting: "window_setting (phys demo_machine) 0x1000 2 1 1 1"
    using demo_setting by (simp add: demo_machine_def)
  obtain olds M1 where mw: "map_window (\<lambda>_. 0) demo_machine 0x1000 (vpage 2) (vpage 1) [0..<1] =
      Inr (olds, M1)"
    using map_window_setting [OF setting demo_open] by blast
  have "\<exists>m'. cpu_store (phys M1) 0x1000 (pte_cell (vpage 2) (vpage 1) 0) 0x7001 = Some m' \<and>
      mmu m' 0x1000 (vpage (1 + 0)) = Some (0x7001 AND frame_mask)"
    by (rule window_edits_mapping [OF setting demo_open mw]) (simp_all add: pte_present_def)
  moreover have "0x7001 AND frame_mask = 0x7000" by (simp add: frame_mask_def)
  moreover have "[0..<1] = [0 :: nat]" by simp
  ultimately show ?thesis using mw unfolding demo_pages by (auto simp: demo_pages)
qed

text \<open>
  for every accepted array size the window is large enough: the cell of every buffer page
  lies inside the \<^verbatim>\<open>num_pde_to_map\<close> pages of the window, however the buffer is aligned, and one
  page fewer would not do for some alignment.
\<close>

theorem num_pde_to_map_tight:
  assumes "0 < unat ASIZE" and "unat ASIZE \<le> 16384"
  shows "(\<forall>b<512. \<forall>k<unat ASIZE. b + k < 512 * num_pde_to_map ASIZE) \<and>
         (\<exists>b<512. \<exists>k<unat ASIZE. 512 * (num_pde_to_map ASIZE - 1) \<le> b + k)"
proof -
  let ?n = "(unat ASIZE + 1022) div 512"
  have "unat ASIZE + 1022 = 512 * ?n + (unat ASIZE + 1022) mod 512" by simp
  moreover have "(unat ASIZE + 1022) mod 512 < 512" by simp
  ultimately have lo: "512 * ?n \<le> unat ASIZE + 1022" and hi: "unat ASIZE + 1022 < 512 * ?n + 512"
    by linarith+
  have "511 < (512 :: nat)" "unat ASIZE - 1 < unat ASIZE" using assms(1) by simp_all
  moreover have "512 * (?n - 1) \<le> 511 + (unat ASIZE - 1)"
    using lo assms(1) by (simp add: diff_mult_distrib2)
  moreover have "b + k < 512 * ?n" if "b < 512" "k < unat ASIZE" for b k
    using that hi by linarith
  ultimately show ?thesis unfolding num_pde_to_map_eq [OF assms(2)] by blast
qed

theorem num_pde_to_map_tight_witness:
  "(\<forall>b<512. \<forall>k<4096. b + k < 512 * num_pde_to_map 4096) \<and> num_pde_to_map 4096 = 9"
  using num_pde_to_map_tight [of 4096] by (simp add: num_pde_to_map_def pte_per_pde_def)

end
