(* ===== verification/C_Numbers.thy ===== *)
theory C_Numbers
  imports Fbmm_Prelude
begin

text \<open>
  The conversions between text and integers that the programs' command lines go through:
  \<^verbatim>\<open>atoi\<close>, \<^verbatim>\<open>atol\<close>, \<^verbatim>\<open>strtoul\<close> in base 10, \<^verbatim>\<open>sscanf\<close> with \<^verbatim>\<open>%i\<close> and \<^verbatim>\<open>%u\<close>, and decimal
  output.  Values out of range behave as in the GNU C library, where the conversions go
  through \<^verbatim>\<open>strtol\<close> and \<^verbatim>\<open>strtoul\<close> on 64-bit \<^verbatim>\<open>long\<close>.
\<close>

definition c_isspace :: "char \<Rightarrow> bool" where
  "c_isspace c \<longleftrightarrow> (let k = of_char c :: nat in k = 32 \<or> (9 \<le> k \<and> k \<le> 13))"

definition c_digit :: "char \<Rightarrow> nat option" where
  "c_digit c =
     (let k = of_char c :: nat in
      if 48 \<le> k \<and> k \<le> 57 then Some (k - 48)
      else if 97 \<le> k \<and> k \<le> 122 then Some (k - 87)
      else if 65 \<le> k \<and> k \<le> 90 then Some (k - 55)
      else None)"

fun take_digits :: "nat \<Rightarrow> string \<Rightarrow> nat list" where
  "take_digits base [] = []"
| "take_digits base (c # cs) =
     (case c_digit c of
        Some d \<Rightarrow> if d < base then d # take_digits base cs else []
      | None \<Rightarrow> [])"

definition digits_value :: "nat \<Rightarrow> nat list \<Rightarrow> nat" where
  "digits_value base ds = foldl (\<lambda>a d. a * base + d) 0 ds"

text \<open>
  The subject sequence of \<^verbatim>\<open>strtol\<close> and its kin: white space, an optional sign, and digits of the
  base, where base 0 takes the base from a prefix.  \<open>None\<close> when no number is there.
\<close>

definition c_scan :: "nat \<Rightarrow> string \<Rightarrow> (bool \<times> nat) option" where
  "c_scan base s =
     (let t = dropWhile c_isspace s;
          neg = (t \<noteq> [] \<and> hd t = CHR ''-'');
          t1 = (if t \<noteq> [] \<and> (hd t = CHR ''-'' \<or> hd t = CHR ''+'') then tl t else t);
          hex = (base = 0 \<and> (take 2 t1 = ''0x'' \<or> take 2 t1 = ''0X'') \<and>
                 take_digits 16 (drop 2 t1) \<noteq> []);
          b = (if base \<noteq> 0 then base else if hex then 16
               else if take 1 t1 = ''0'' then 8 else 10);
          ds = take_digits b (if hex then drop 2 t1 else t1)
      in if ds = [] then None else Some (neg, digits_value b ds))"

definition clamp_long :: "int \<Rightarrow> int" where
  "clamp_long k = max (- (2 ^ 63)) (min (2 ^ 63 - 1) k)"

text \<open>Conversion of a \<^verbatim>\<open>long\<close> to \<^verbatim>\<open>int\<close>: the low 32 bits, read as two's complement.\<close>

definition to_int32 :: "int \<Rightarrow> int" where
  "to_int32 k = signed_take_bit 31 k"

definition signed_value :: "bool \<times> nat \<Rightarrow> int" where
  "signed_value nv = (if fst nv then - int (snd nv) else int (snd nv))"

definition atol :: "string \<Rightarrow> int" where
  "atol s = (case c_scan 10 s of None \<Rightarrow> 0 | Some nv \<Rightarrow> clamp_long (signed_value nv))"

definition atoi :: "string \<Rightarrow> int" where
  "atoi s = to_int32 (atol s)"

definition strtoul10 :: "string \<Rightarrow> u64" where
  "strtoul10 s =
     (case c_scan 10 s of
        None \<Rightarrow> 0
      | Some (neg, v) \<Rightarrow>
          if 2 ^ 64 \<le> v then - 1 else if neg then - of_nat v else of_nat v)"

definition sscanf_i :: "string \<Rightarrow> int option" where
  "sscanf_i s = map_option (\<lambda>nv. to_int32 (clamp_long (signed_value nv))) (c_scan 0 s)"

definition sscanf_u :: "string \<Rightarrow> u32 option" where
  "sscanf_u s = map_option (\<lambda>_. ucast (strtoul10 s)) (c_scan 10 s)"

text \<open>Decimal output of a non-negative number, as by \<^verbatim>\<open>%d\<close>.\<close>

fun decimal :: "nat \<Rightarrow> string" where
  "decimal n =
     (if n < 10 then [char_of (48 + n)]
      else decimal (n div 10) @ [char_of (48 + n mod 10)])"

declare decimal.simps [simp del]

lemma c_digit_char_of [cnum_simps]: "d < 10 \<Longrightarrow> c_digit (char_of (48 + d)) = Some d"
  by (simp add: c_digit_def Let_def)

lemma c_isspace_char_of [cnum_simps]: "d < 10 \<Longrightarrow> \<not> c_isspace (char_of (48 + d :: nat))"
  by (simp add: c_isspace_def Let_def)

fun dec_digits :: "nat \<Rightarrow> nat list" where
  "dec_digits n = (if n < 10 then [n] else dec_digits (n div 10) @ [n mod 10])"

declare dec_digits.simps [simp del]

lemma decimal_dec_digits: "decimal n = map (\<lambda>d. char_of (48 + d)) (dec_digits n)"
proof (induction n rule: decimal.induct)
  case (1 n)
  then show ?case by (subst decimal.simps, subst dec_digits.simps) simp
qed

lemma dec_digits_less: "d \<in> set (dec_digits n) \<Longrightarrow> d < 10"
proof (induction n rule: dec_digits.induct)
  case (1 n)
  show ?case
  proof (cases "n < 10")
    case True
    with 1(2) show ?thesis by (simp add: dec_digits.simps [of n])
  next
    case False
    with 1 show ?thesis by (auto simp: dec_digits.simps [of n])
  qed
qed

lemma digits_value_snoc: "digits_value b (ds @ [d]) = digits_value b ds * b + d"
  by (simp add: digits_value_def)

lemma digits_value_dec_digits: "digits_value 10 (dec_digits n) = n"
proof (induction n rule: dec_digits.induct)
  case (1 n)
  then show ?case
    by (subst dec_digits.simps) (simp add: digits_value_snoc, simp add: digits_value_def)
qed

lemma dec_digits_nonempty: "dec_digits n \<noteq> []"
  by (subst dec_digits.simps) simp

lemma take_digits_map:
  "(\<And>d. d \<in> set ds \<Longrightarrow> d < 10) \<Longrightarrow> take_digits 10 (map (\<lambda>d. char_of (48 + d)) ds) = ds"
  by (induction ds) (simp_all add: cnum_simps)

lemma c_scan_decimal [cnum_simps]: "c_scan 10 (decimal n) = Some (False, n)"
proof -
  obtain d ds where dd: "dec_digits n = d # ds"
    using dec_digits_nonempty [of n] by (cases "dec_digits n") auto
  have d: "d < 10" using dec_digits_less [of d n] dd by simp
  then have "\<not> c_isspace (char_of (48 + d))" by (rule c_isspace_char_of)
  moreover have "char_of (48 + d) \<noteq> CHR ''-''" "char_of (48 + d) \<noteq> CHR ''+''"
    using d by (auto simp: char_of_eq_iff take_bit_eq_mod)
  moreover have "take_digits 10 (decimal n) = dec_digits n"
    unfolding decimal_dec_digits by (rule take_digits_map) (rule dec_digits_less)
  ultimately show ?thesis
    using dd digits_value_dec_digits [of n]
    by (simp add: c_scan_def Let_def decimal_dec_digits)
qed

lemmas cnum_eval =
  atoi_def atol_def strtoul10_def sscanf_i_def sscanf_u_def c_scan_def c_isspace_def c_digit_def
  digits_value_def clamp_long_def signed_value_def to_int32_def

lemma atol_decimal [cnum_simps]: "n < 2 ^ 63 \<Longrightarrow> atol (decimal n) = int n"
  by (simp add: atol_def cnum_simps clamp_long_def signed_value_def)

lemma to_int32_range: "- (2 ^ 31) \<le> to_int32 k \<and> to_int32 k < 2 ^ 31"
  unfolding to_int32_def
  using signed_take_bit_int_greater_eq_minus_exp [of 31 k] signed_take_bit_int_less_exp [of 31 k]
  by simp

lemma atoi_decimal [cnum_simps]: "n < 2 ^ 31 \<Longrightarrow> atoi (decimal n) = int n"
  by (simp add: atoi_def cnum_simps to_int32_def signed_take_bit_int_eq_self)

end
