(* ===== verification/Paging_Run.thy ===== *)
theory Paging_Run
  imports Page_Window C_Numbers "HOL-Library.Multiset"
begin

text \<open>
  The driver of \<^verbatim>\<open>bmks/pagewalk_coherence/paging.cc\<close>: the command line (\<^verbatim>\<open>parse_opts\<close>), the
  random order of the pages, the two experiments, the final table, and \<^verbatim>\<open>main\<close> around them.

  \<^verbatim>\<open>main\<close> first translates every page of its array, maps the window of \<open>Page_Window\<close> and saves
  the array's entries; the experiment stores entries through the window and counts what its
  loads return; then everything is restored.  The stores of the experiment are the list
  \<open>probe_stores\<close>, its counters are \<open>probe_rows\<close>.  What a load returns depends on whether the
  processor has cached an old mapping, which is what the program measures: the values of the
  loads are an argument.  The physical memory of the model holds the page tables; the data
  of the array (the words 1 and 2 the program stores in its first two pages) is not part of it.
\<close>

section \<open>Options\<close>

record s_opts =
  preload :: int
  asize :: u32
  mode :: int
  chain_deps :: int
  dont_remap :: bool

definition default_opts :: s_opts where
  "default_opts = \<lparr>preload = 0, asize = 4096, mode = 0, chain_deps = 4, dont_remap = False\<rparr>"

text \<open>\<open>u\<close> is the indeterminate value of a local that \<^verbatim>\<open>sscanf\<close> did not assign.\<close>

definition or_else :: "'a \<Rightarrow> 'a option \<Rightarrow> 'a" where
  "or_else d x = (case x of None \<Rightarrow> d | Some v \<Rightarrow> v)"

definition chain_bits :: "int \<Rightarrow> int \<Rightarrow> int \<Rightarrow> int" where
  "chain_bits t1 t2 t3 =
     (if t1 \<noteq> 0 then 4 else 0) OR (if t2 \<noteq> 0 then 2 else 0) OR (if t3 \<noteq> 0 then 1 else 0)"

text \<open>
  One round of the loop over the arguments: the options and the flag \<^verbatim>\<open>fail\<close>, the argument and
  those after it; the result has the arguments still to be read.
\<close>

definition parse_arg ::
  "int \<Rightarrow> s_opts \<times> bool \<Rightarrow> string \<Rightarrow> string list \<Rightarrow> (s_opts \<times> bool) \<times> string list" where
  "parse_arg u st a as =
     (let opts = fst st; fail = snd st in
      if a = ''--preload'' then
        (case as of
           [] \<Rightarrow> ((opts, True), [])
         | x # rest \<Rightarrow> ((opts\<lparr>preload := or_else (preload opts) (sscanf_i x)\<rparr>, fail), rest))
      else if a = ''--asize'' then
        (case as of
           [] \<Rightarrow> ((opts, True), [])
         | x # rest \<Rightarrow>
             (let n = or_else (asize opts) (sscanf_u x)
              in ((opts\<lparr>asize := n\<rparr>, fail \<or> n > 16384 \<or> n \<le> 0), rest)))
      else if a = ''--mode'' then
        (case as of
           [] \<Rightarrow> ((opts, True), [])
         | x # rest \<Rightarrow>
             (let n = or_else (mode opts) (sscanf_i x)
              in ((opts\<lparr>mode := n\<rparr>, fail \<or> n > 1 \<or> n < 0), rest)))
      else if a = ''--dont_remap'' then ((opts\<lparr>dont_remap := True\<rparr>, fail), as)
      else if a = ''--chain_deps'' then
        (case as of
           x # y # z # rest \<Rightarrow>
             (let t1 = or_else u (sscanf_i x); t2 = or_else u (sscanf_i y);
                  t3 = or_else u (sscanf_i z)
              in ((opts\<lparr>chain_deps := chain_bits t1 t2 t3\<rparr>, fail), rest))
         | _ \<Rightarrow> ((opts, True), as))
      else if a = ''--chain_depsb'' then
        (case as of
           [] \<Rightarrow> ((opts, True), [])
         | x # rest \<Rightarrow> ((opts\<lparr>chain_deps := or_else u (sscanf_i x) AND 7\<rparr>, fail), rest))
      else ((opts, True), as))"

lemma parse_arg_length: "length (snd (parse_arg u st a as)) \<le> length as"
  by (auto simp: parse_arg_def Let_def split: list.split)

function parse_args :: "int \<Rightarrow> s_opts \<times> bool \<Rightarrow> string list \<Rightarrow> s_opts \<times> bool" where
  "parse_args u st [] = st"
| "parse_args u st (a # as) =
     (let r = parse_arg u st a as in parse_args u (fst r) (snd r))"
  by pat_completeness auto
termination
  by (relation "measure (\<lambda>(u, st, as). length as)") (simp_all add: le_imp_less_Suc parse_arg_length split_beta)

text \<open>\<open>None\<close> when \<^verbatim>\<open>parse_opts\<close> returns false.\<close>

definition parse_opts :: "int \<Rightarrow> string list \<Rightarrow> s_opts option" where
  "parse_opts u args =
     (let (opts, fail) = parse_args u (default_opts, False) args
      in if fail then None else Some opts)"

section \<open>The order of the pages\<close>

text \<open>One round of the loop: \<open>j\<close> is \<^verbatim>\<open>rand() % (i+1)\<close>.\<close>

definition shuffle_step :: "(nat \<Rightarrow> nat) \<Rightarrow> nat \<Rightarrow> u16 list \<Rightarrow> u16 list" where
  "shuffle_step rand i xs = (let j = rand i mod (i + 1) in (xs[i := xs ! j])[j := of_nat i])"

fun shuffle :: "(nat \<Rightarrow> nat) \<Rightarrow> nat \<Rightarrow> u16 list \<Rightarrow> u16 list" where
  "shuffle rand 0 xs = xs"
| "shuffle rand (Suc n) xs = shuffle_step rand n (shuffle rand n xs)"

text \<open>The pair of offsets kept for each visited page.\<close>

definition randindex2 :: "u16 \<Rightarrow> u32 \<times> u32" where
  "randindex2 r =
     (ucast r * 8, push_bit 12 (ucast r) OR push_bit 6 (ucast r AND 0x3f))"

definition inner_its :: "u32 \<Rightarrow> nat" where
  "inner_its ASIZE =
     (let v = unat (4096 div ASIZE) in if v < 1 then 1 else if 4096 < v then 4096 else v)"

definition opts_ok :: "s_opts \<Rightarrow> bool" where
  "opts_ok opts \<longleftrightarrow> 0 < asize opts \<and> asize opts \<le> 16384 \<and> mode opts \<in> {0, 1} \<and>
     0 \<le> chain_deps opts \<and> chain_deps opts \<le> 7"

lemma chain_bits_range: "0 \<le> chain_bits t1 t2 t3 \<and> chain_bits t1 t2 t3 \<le> 7"
  by (simp add: chain_bits_def)

lemma parse_arg_ok:
  assumes "\<not> snd st \<longrightarrow> opts_ok (fst st)"
  shows "\<not> snd (fst (parse_arg u st a as)) \<longrightarrow> opts_ok (fst (fst (parse_arg u st a as)))"
proof (cases "a = ''--chain_deps''")
  case True
  then show ?thesis using assms chain_bits_range
    by (simp add: parse_arg_def Let_def opts_ok_def split: list.split)
next
  case False
  have "n = 0 \<or> n = 1" if "\<not> 1 < n" "\<not> n < 0" for n :: int using that by arith
  then show ?thesis using assms False
    by (simp add: parse_arg_def Let_def opts_ok_def word_gt_0 not_less split: list.split)
qed

lemma parse_args_ok:
  "\<not> snd st \<longrightarrow> opts_ok (fst st) \<Longrightarrow> \<not> snd (parse_args u st as) \<longrightarrow> opts_ok (fst (parse_args u st as))"
proof (induction u st as rule: parse_args.induct)
  case (1 u st)
  then show ?case by simp
next
  case (2 u st a as)
  then show ?case using parse_arg_ok [OF 2(2)] by (simp add: Let_def)
qed

section \<open>The permutation\<close>

lemma length_shuffle [simp]: "length (shuffle rand n xs) = length xs"
  by (induction n) (simp_all add: shuffle_step_def Let_def)

lemma take_Suc_shuffle_step:
  assumes "n < length ys"
  shows "mset (take (Suc n) (shuffle_step rand n ys)) = add_mset (of_nat n) (mset (take n ys))"
proof -
  let ?j = "rand n mod (n + 1)"
  have j: "?j \<le> n" using mod_less_divisor [of "n + 1" "rand n"] by linarith
  show ?thesis
  proof (cases "?j = n")
    case True
    then show ?thesis using assms
      by (simp add: shuffle_step_def Let_def take_Suc_conv_app_nth)
  next
    case False
    with j have lt: "?j < n" by linarith
    have "take (Suc n) (shuffle_step rand n ys) = (take n ys)[?j := of_nat n] @ [ys ! ?j]"
      using assms lt by (simp add: shuffle_step_def Let_def take_Suc_conv_app_nth take_update_swap list_update_append min_def)
    moreover have "ys ! ?j \<in># mset (take n ys)"
      using lt assms by (metis in_set_conv_nth length_take min_less_iff_conj nth_take set_mset_mset less_trans)
    ultimately show ?thesis using lt assms by (simp add: mset_update)
  qed
qed

lemma mset_take_shuffle:
  "n \<le> length xs \<Longrightarrow> mset (take n (shuffle rand n xs)) = mset (map of_nat [0..<n])"
  by (induction n) (simp_all add: take_Suc_shuffle_step)

lemma mset_shuffle: "length xs = n \<Longrightarrow> mset (shuffle rand n xs) = mset (map of_nat [0..<n])"
  using mset_take_shuffle [of n xs rand] by simp

section \<open>The experiment\<close>

definition ITS :: nat where "ITS = 1024"

text \<open>
  Increment \<^verbatim>\<open>c[i]\<close> of an array of counters, with the index computed in 32-bit unsigned
  arithmetic.
\<close>

definition bump :: "u32 list \<Rightarrow> u32 \<Rightarrow> fault + u32 list" where
  "bump c i = (if unat i < length c then Inr (c[unat i := c ! unat i + 1]) else Inl OutOfBounds)"

text \<open>
  \<open>ld t\<close> is what the \<open>t\<close>-th load from the large array returns: which mapping the
  processor uses is the outcome of the experiment, not determined by the program.
\<close>

fun preload_pass :: "(nat \<Rightarrow> u32) \<Rightarrow> nat \<Rightarrow> nat \<Rightarrow> u32 list \<Rightarrow> fault + u32 list" where
  "preload_pass ld t 0 c = Inr c"
| "preload_pass ld t (Suc k) c =
     (case bump c (ld t - 1) of
        Inl f \<Rightarrow> Inl f
      | Inr c' \<Rightarrow> preload_pass ld (t + 1) k c')"

text \<open>The innermost loop of mode 0 over \<open>k\<close> pages.\<close>

fun mode0_pass :: "(nat \<Rightarrow> u32) \<Rightarrow> nat \<Rightarrow> nat \<Rightarrow> u32 list \<Rightarrow> fault + (u32 list \<times> nat)" where
  "mode0_pass ld t 0 c = Inr (c, t)"
| "mode0_pass ld t (Suc k) c =
     (case bump c (ld t + 1) of
        Inl f \<Rightarrow> Inl f
      | Inr c1 \<Rightarrow>
          (case bump c1 (ld (t + 1) - 1) of
             Inl f \<Rightarrow> Inl f
           | Inr c2 \<Rightarrow> mode0_pass ld (t + 2) k c2))"

text \<open>
  The loop over \<^verbatim>\<open>inner_its\<close>: each round ends by copying the counters to \<^verbatim>\<open>counts[j]\<close>, here
  \<open>row\<close>, and clearing them.
\<close>

fun mode0_inner ::
  "(nat \<Rightarrow> u32) \<Rightarrow> nat \<Rightarrow> nat \<Rightarrow> nat \<Rightarrow> u32 list \<Rightarrow> fault + (u32 list \<times> nat)" where
  "mode0_inner ld t 0 A row = Inr (row, t)"
| "mode0_inner ld t (Suc k) A row =
     (case mode0_pass ld t A [0, 0, 0, 0] of
        Inl f \<Rightarrow> Inl f
      | Inr (c, t') \<Rightarrow> mode0_inner ld t' k A c)"

fun mode0_rows :: "(nat \<Rightarrow> u32) \<Rightarrow> nat \<Rightarrow> nat \<Rightarrow> nat \<Rightarrow> nat \<Rightarrow> fault + u32 list list" where
  "mode0_rows ld t 0 inner A = Inr []"
| "mode0_rows ld t (Suc j) inner A =
     (case mode0_inner ld t inner A [0, 0, 0, 0] of
        Inl f \<Rightarrow> Inl f
      | Inr (row, t') \<Rightarrow>
          (case mode0_rows ld t' j inner A of
             Inl f \<Rightarrow> Inl f
           | Inr rows \<Rightarrow> Inr (row # rows)))"

text \<open>The registers of mode 1: the multiplication chain \<open>x\<close> and the loaded value \<open>n\<close>.\<close>

fun imuls :: "nat \<Rightarrow> u32 \<Rightarrow> u32" where
  "imuls 0 x = x"
| "imuls (Suc k) x = imuls k (x * x)"

text \<open>
  The start of the chain in each of the eight variants, by the source's branch on
  \<^verbatim>\<open>opts.chain_deps\<close>.
\<close>

definition chain_start :: "int \<Rightarrow> u32 \<Rightarrow> u32 \<Rightarrow> u32" where
  "chain_start cd x n =
     (if cd = 0 \<or> cd = 1 then 0
      else if cd = 2 \<or> cd = 3 then n - 1
      else if cd = 4 \<or> cd = 5 then x + x
      else x AND n)"

text \<open>
  One visit of a page: the chain of 2 and 14 multiplications, the store of the mapping, and
  the load, whose address has \<open>x\<close> added in the variants 1, 3, 5 and 7.  The result has the
  registers and that addend.
\<close>

definition mode1_visit :: "int \<Rightarrow> u32 \<Rightarrow> u32 \<Rightarrow> u32 \<Rightarrow> (u32 \<times> u32) \<times> u32" where
  "mode1_visit cd loaded x n =
     (let x1 = imuls 14 (imuls 2 (chain_start cd x n))
      in ((x1, loaded), if cd = 1 \<or> cd = 3 \<or> cd = 5 \<or> cd = 7 then x1 else 0))"

fun mode1_run :: "int \<Rightarrow> (nat \<Rightarrow> u32) \<Rightarrow> nat \<Rightarrow> nat \<Rightarrow> u32 \<Rightarrow> u32 \<Rightarrow> u32 list" where
  "mode1_run cd ld t 0 x n = []"
| "mode1_run cd ld t (Suc k) x n =
     (let r = mode1_visit cd (ld t) x n
      in snd r # mode1_run cd ld (t + 1) k (fst (fst r)) (snd (fst r)))"

text \<open>The final table: equal rows that follow each other are printed and added up once.\<close>

definition add_scaled :: "u32 list \<Rightarrow> nat \<Rightarrow> u32 list \<Rightarrow> u32 list" where
  "add_scaled row k sums = map2 (\<lambda>c s. s + c * of_nat k) row sums"

function tabulate :: "u32 list list \<Rightarrow> u32 list \<Rightarrow> (u32 list \<times> nat) list \<times> u32 list" where
  "tabulate [] sums = ([], sums)"
| "tabulate (row # rows) sums =
     (let repeat_count = length (takeWhile (\<lambda>r. r = row) (row # rows));
          r = tabulate (drop repeat_count (row # rows)) (add_scaled row repeat_count sums)
      in ((row, repeat_count) # fst r, snd r))"
  by pat_completeness auto
termination
  by (relation "measure (\<lambda>(rows, sums). length rows)") simp_all

text \<open>The plain sum of all rows.\<close>

definition sum_rows :: "u32 list list \<Rightarrow> u32 list \<Rightarrow> u32 list" where
  "sum_rows rows sums = foldl (\<lambda>s row. add_scaled row 1 s) sums rows"

lemma add_scaled_twice:
  "length row = length sums \<Longrightarrow>
   add_scaled row k (add_scaled row 1 sums) = add_scaled row (Suc k) sums"
  by (rule nth_equalityI) (auto simp: add_scaled_def algebra_simps)

lemma length_add_scaled [simp]:
  "length row = length sums \<Longrightarrow> length (add_scaled row k sums) = length sums"
  by (simp add: add_scaled_def)

lemma sum_rows_replicate:
  "length row = length sums \<Longrightarrow> sum_rows (replicate k row) sums = add_scaled row k sums"
proof (induction k arbitrary: sums)
  case 0
  then show ?case by (auto simp: sum_rows_def add_scaled_def intro!: nth_equalityI)
next
  case (Suc k)
  then have "sum_rows (replicate (Suc k) row) sums = add_scaled row k (add_scaled row 1 sums)"
    by (simp add: sum_rows_def)
  with Suc.prems show ?case by (simp only: add_scaled_twice)
qed

lemma takeWhile_eq_replicate: "takeWhile (\<lambda>r. r = a) xs = replicate (length (takeWhile (\<lambda>r. r = a) xs)) a"
  by (induction xs) auto

lemma tabulate_sums:
  "\<forall>row\<in>set rows. length row = length sums \<Longrightarrow> snd (tabulate rows sums) = sum_rows rows sums"
proof (induction rows sums rule: tabulate.induct)
  case (1 sums)
  then show ?case by (simp add: sum_rows_def)
next
  case (2 row rows sums)
  let ?tw = "takeWhile (\<lambda>r. r = row) (row # rows)"
  let ?k = "length ?tw"
  have split: "row # rows = replicate ?k row @ drop ?k (row # rows)"
    using takeWhile_eq_replicate [of row "row # rows"]
    by (metis append_eq_conv_conj takeWhile_dropWhile_id)
  have len: "length row = length sums" using 2(2) by simp
  have "\<forall>r\<in>set (drop ?k (row # rows)). length r = length (add_scaled row ?k sums)"
    using 2(2) len by (metis in_set_dropD length_add_scaled)
  then have "snd (tabulate (row # rows) sums) =
      sum_rows (drop ?k (row # rows)) (add_scaled row ?k sums)"
    using 2(1) by (simp add: Let_def del: drop_Suc_Cons takeWhile.simps)
  also have "\<dots> = sum_rows (drop ?k (row # rows)) (sum_rows (replicate ?k row) sums)"
    using len by (simp only: sum_rows_replicate)
  also have "\<dots> = sum_rows (replicate ?k row @ drop ?k (row # rows)) sums"
    by (simp add: sum_rows_def del: drop_Suc_Cons takeWhile.simps)
  finally show ?case using split by simp
qed

text \<open>
  The results of an experiment, \<open>None\<close> when the preload pass makes the program skip to its
  clean-up.  An array of one page makes the program write past its end when it marks its two
  test pages.
\<close>

definition probe_rows :: "s_opts \<Rightarrow> (nat \<Rightarrow> u32) \<Rightarrow> fault + u32 list list option" where
  "probe_rows opts ld =
     (let A = unat (asize opts) in
      if A < 2 then Inl Segfault
      else
        (case (if preload opts \<noteq> 0 then preload_pass ld 0 A [0, 0] else Inr [asize opts, 0]) of
           Inl f \<Rightarrow> Inl f
         | Inr c \<Rightarrow>
             if c ! 0 + c ! 1 \<noteq> asize opts then Inr None
             else if mode opts = 0 then
               (case mode0_rows ld (if preload opts \<noteq> 0 then A else 0) ITS
                       (inner_its (asize opts)) A of
                  Inl f \<Rightarrow> Inl f
                | Inr rows \<Rightarrow> Inr (Some rows))
             else Inr (Some (replicate ITS [0, 0, 0, 0]))))"

text \<open>The stores to page-table entries that the experiment makes, in order.\<close>

definition probe_stores :: "s_opts \<Rightarrow> u16 list \<Rightarrow> bool \<Rightarrow> u64 list \<Rightarrow> (nat \<times> u64) list" where
  "probe_stores opts perm completed pt =
     (let A = unat (asize opts);
          map_pte1 = pt ! 0; map_pte2 = pt ! 1;
          visits = concat (replicate (ITS * inner_its (asize opts)) (map unat perm))
      in (if preload opts \<noteq> 0
          then map (\<lambda>i. (i, if preload opts = 1 then map_pte1 else map_pte2)) [0..<A] else []) @
         (if \<not> completed then []
          else map (\<lambda>i. (i, map_pte1)) [0..<A] @
            (if dont_remap opts then []
             else if mode opts = 0 then concat (map (\<lambda>r. [(r, map_pte2), (r, map_pte1)]) visits)
             else if mode opts = 1 then map (\<lambda>r. (r, map_pte1)) visits
             else [])))"

fun check_pages :: "machine \<Rightarrow> u64 \<Rightarrow> u64 \<Rightarrow> nat list \<Rightarrow> fault + unit" where
  "check_pages M cr3 big [] = Inr ()"
| "check_pages M cr3 big (i # is) =
     (case translate M cr3 (window_page big i) 0 of
        Inl f \<Rightarrow> Inl f
      | Inr _ \<Rightarrow> check_pages M cr3 big is)"

text \<open>
  What the program gets from its environment: the two registers printed by \<^verbatim>\<open>/proc/pgmod\<close>
  (\<open>None\<close> when it cannot be opened), the descriptor of \<^verbatim>\<open>/dev/mem\<close>, the two arrays mapped by
  \<^verbatim>\<open>mmap\<close>, the results of \<^verbatim>\<open>rand\<close>, the loads of the experiment, and the contents of
  uninitialised memory.
\<close>

record paging_env =
  proc_pgmod :: "(u64 \<times> u64) option"
  open_devmem :: int
  env_bigbuf :: u64
  env_window :: u64
  env_rand :: "nat \<Rightarrow> nat"
  env_loads :: "nat \<Rightarrow> u32"
  env_index :: "u16 list"
  env_u64 :: "nat \<Rightarrow> u64"
  env_int :: int

definition paging_main :: "paging_env \<Rightarrow> machine \<Rightarrow> string list \<Rightarrow> fault + (machine \<times> u32 list option)" where
  "paging_main env M args =
     (case parse_opts (env_int env) args of
        None \<Rightarrow> Inl (ExitWith 1)
      | Some opts \<Rightarrow>
          (case proc_pgmod env of
             None \<Rightarrow> Inl (ExitWith (-1))
           | Some (cr3, cr4) \<Rightarrow>
               if open_devmem env = -1 then Inl (ExitWith (-2))
               else if (pte_per_pde = 512) \<noteq> (cr4 AND 0x20 \<noteq> 0) then Inl (ExitWith (-3))
               else
                 (let ASIZE = asize opts;
                      M0 = M\<lparr>fd_devmem := open_devmem env\<rparr>;
                      randindex = shuffle (env_rand env) (unat ASIZE) (env_index env);
                      result = probe_rows opts (env_loads env)
                  in case check_pages M0 cr3 (env_bigbuf env) [0..<unat ASIZE] of
                       Inl f \<Rightarrow> Inl f
                     | Inr _ \<Rightarrow>
                         (case remap_run (env_u64 env) (env_u64 env) M0 cr3 (env_window env)
                                 (env_bigbuf env) ASIZE
                                 (\<lambda>pt. case result of Inl f \<Rightarrow> Inl f
                                    | Inr r \<Rightarrow> Inr (probe_stores opts randindex (r \<noteq> None) pt)) of
                            Inl f \<Rightarrow> Inl f
                          | Inr M' \<Rightarrow>
                              Inr (M'\<lparr>fd_devmem := -1\<rparr>,
                                case result of
                                  Inr (Some rows) \<Rightarrow> Some (snd (tabulate rows [0, 0, 0, 0]))
                                | _ \<Rightarrow> None)))))"

lemma bump_4:
  assumes "length c = 4" "i = 0 \<or> i = 1"
  shows "\<exists>c'. bump c i = Inr c' \<and> length c' = 4 \<and> c' ! 0 + c' ! 1 = c ! 0 + c ! 1 + 1 \<and>
    c' ! 2 = c ! 2 \<and> c' ! 3 = c ! 3"
    and "\<exists>c'. bump c (i + 2) = Inr c' \<and> length c' = 4 \<and> c' ! 2 + c' ! 3 = c ! 2 + c ! 3 + 1 \<and>
    c' ! 0 = c ! 0 \<and> c' ! 1 = c ! 1"
  using assms by (auto simp: bump_def)

lemma mode0_pass_counts:
  assumes "\<forall>t. ld t \<in> {1, 2}" and "length c = 4"
  shows "\<exists>c'. mode0_pass ld t k c = Inr (c', t + 2 * k) \<and> length c' = 4 \<and>
    c' ! 0 + c' ! 1 = c ! 0 + c ! 1 + of_nat k \<and> c' ! 2 + c' ! 3 = c ! 2 + c ! 3 + of_nat k"
  using assms(2)
proof (induction k arbitrary: t c)
  case 0
  then show ?case by simp
next
  case (Suc k)
  have l: "ld t - 1 = 0 \<or> ld t - 1 = 1" "ld t + 1 = (ld t - 1) + 2" for t
    using assms(1) [rule_format, of t] by auto
  obtain c1 where c1: "bump c (ld t + 1) = Inr c1" "length c1 = 4"
    "c1 ! 2 + c1 ! 3 = c ! 2 + c ! 3 + 1" "c1 ! 0 = c ! 0" "c1 ! 1 = c ! 1"
    using bump_4(2) [OF Suc.prems l(1) [of t]] l(2) [of t] by auto
  obtain c2 where c2: "bump c1 (ld (t + 1) - 1) = Inr c2" "length c2 = 4"
    "c2 ! 0 + c2 ! 1 = c1 ! 0 + c1 ! 1 + 1" "c2 ! 2 = c1 ! 2" "c2 ! 3 = c1 ! 3"
    using bump_4(1) [OF c1(2) l(1) [of "t + 1"]] by auto
  show ?case
    using Suc.IH [OF c2(2), of "t + 2"] c1 c2 by (auto simp: algebra_simps)
qed

definition row_ok :: "nat \<Rightarrow> u32 list \<Rightarrow> bool" where
  "row_ok A row \<longleftrightarrow> length row = 4 \<and> row ! 0 + row ! 1 = of_nat A \<and> row ! 2 + row ! 3 = of_nat A"

lemma mode0_inner_row:
  assumes "\<forall>t. ld t \<in> {1, 2}" and "0 < k \<or> row_ok A row"
  shows "\<exists>row' t'. mode0_inner ld t k A row = Inr (row', t') \<and> row_ok A row'"
  using assms(2)
proof (induction k arbitrary: t row)
  case 0
  then show ?case by simp
next
  case (Suc k)
  from mode0_pass_counts [OF assms(1), of "[0, 0, 0, 0]" t A]
  obtain c where "mode0_pass ld t A [0, 0, 0, 0] = Inr (c, t + 2 * A)" "row_ok A c"
    by (auto simp: row_ok_def)
  with Suc.IH [of c "t + 2 * A"] show ?case by simp
qed

lemma mode0_rows_ok:
  assumes "\<forall>t. ld t \<in> {1, 2}" and "0 < inner"
  shows "\<exists>rows. mode0_rows ld t j inner A = Inr rows \<and> length rows = j \<and> (\<forall>row\<in>set rows. row_ok A row)"
proof (induction j arbitrary: t)
  case 0
  then show ?case by simp
next
  case (Suc j)
  from mode0_inner_row [OF assms(1), of inner A "[0, 0, 0, 0]" t] assms(2)
  obtain row t' where "mode0_inner ld t inner A [0, 0, 0, 0] = Inr (row, t')" "row_ok A row" by auto
  with Suc.IH [of t'] show ?case by auto
qed

lemma sum_rows_ok:
  assumes "\<forall>row\<in>set rows. row_ok A row" and "length sums = 4"
  shows "length (sum_rows rows sums) = 4 \<and>
    sum_rows rows sums ! 0 + sum_rows rows sums ! 1 = sums ! 0 + sums ! 1 + of_nat (length rows * A) \<and>
    sum_rows rows sums ! 2 + sum_rows rows sums ! 3 = sums ! 2 + sums ! 3 + of_nat (length rows * A)"
  using assms
proof (induction rows arbitrary: sums)
  case Nil
  then show ?case by (simp add: sum_rows_def)
next
  case (Cons row rows)
  let ?s = "add_scaled row 1 sums"
  have row: "length row = 4" "row ! 0 + row ! 1 = of_nat A" "row ! 2 + row ! 3 = of_nat A"
    using Cons.prems by (simp_all add: row_ok_def)
  have s: "length ?s = 4" "?s ! 0 + ?s ! 1 = sums ! 0 + sums ! 1 + of_nat A"
    "?s ! 2 + ?s ! 3 = sums ! 2 + sums ! 3 + of_nat A"
    using row Cons.prems(2) by (simp_all add: add_scaled_def algebra_simps)
  have "sum_rows (row # rows) sums = sum_rows rows ?s" by (simp add: sum_rows_def)
  with Cons.IH [OF _ s(1)] Cons.prems(1) s(2,3) show ?case by (simp add: algebra_simps)
qed

lemma preload_pass_counts:
  assumes "\<forall>t. ld t \<in> {1, 2}" and "length c = 2"
  shows "\<exists>c'. preload_pass ld t k c = Inr c' \<and> c' ! 0 + c' ! 1 = c ! 0 + c ! 1 + of_nat k"
  using assms(2)
proof (induction k arbitrary: t c)
  case 0
  then show ?case by simp
next
  case (Suc k)
  have "ld t = 1 \<or> ld t = 2" using assms(1) by auto
  then obtain c' where "bump c (ld t - 1) = Inr c'" "length c' = 2"
    "c' ! 0 + c' ! 1 = c ! 0 + c ! 1 + 1"
    using Suc.prems by (auto simp: bump_def)
  with Suc.IH [of c' "t + 1"] show ?case by (auto simp: algebra_simps)
qed

lemma probe_rows_ok:
  assumes "\<forall>t. ld t \<in> {1, 2}" and "2 \<le> unat (asize opts)" and "mode opts \<in> {0, 1}"
  shows "\<exists>rows. probe_rows opts ld = Inr (Some rows) \<and> length rows = ITS \<and>
    (\<forall>row\<in>set rows. length row = 4) \<and> (mode opts = 0 \<longrightarrow> (\<forall>row\<in>set rows. row_ok (unat (asize opts)) row))"
proof -
  let ?A = "unat (asize opts)"
  have inner: "0 < inner_its (asize opts)" by (simp add: inner_its_def Let_def)
  obtain c where c: "(if preload opts \<noteq> 0 then preload_pass ld 0 ?A [0, 0] else Inr [asize opts, 0]) = Inr c"
    "c ! 0 + c ! 1 = asize opts"
    using preload_pass_counts [OF assms(1), of "[0, 0]" 0 ?A] by (cases "preload opts \<noteq> 0") auto
  show ?thesis
  proof (cases "mode opts = 0")
    case True
    with mode0_rows_ok [OF assms(1) inner, of "if preload opts \<noteq> 0 then ?A else 0" ITS ?A] c assms(2)
    show ?thesis by (auto simp: probe_rows_def Let_def row_ok_def)
  next
    case False
    with c assms(2) show ?thesis by (simp add: probe_rows_def Let_def)
  qed
qed

lemma parse_opts_Some: "parse_opts u args = Some opts \<Longrightarrow> opts_ok opts"
  using parse_args_ok [of "(default_opts, False)" u args]
  by (auto simp: parse_opts_def default_opts_def opts_ok_def split: prod.splits if_splits)

lemma opts_okD:
  assumes "opts_ok opts"
  shows "0 < unat (asize opts)" "unat (asize opts) \<le> 16384" "mode opts \<in> {0, 1}"
proof -
  show "0 < unat (asize opts)" "mode opts \<in> {0, 1}"
    using assms by (simp_all add: opts_ok_def unat_gt_0 word_gt_0)
  have "unat (asize opts) \<le> unat (16384 :: u32)"
    using assms by (simp add: opts_ok_def word_le_nat_alt)
  then show "unat (asize opts) \<le> 16384" by simp
qed

lemma unat_u16_small: "i < 65536 \<Longrightarrow> unat (of_nat i :: u16) = i"
  by (simp add: unat_of_nat take_bit_eq_mod)

lemma shuffle_visits:
  assumes "length xs = n" "n \<le> 65536"
  shows "mset (map unat (shuffle rand n xs)) = mset [0..<n]"
proof -
  have "mset (map unat (shuffle rand n xs)) = mset (map (\<lambda>i. unat (of_nat i :: u16)) [0..<n])"
    by (simp add: mset_shuffle [OF assms(1)] multiset.map_comp comp_def)
  also have "map (\<lambda>i. unat (of_nat i :: u16)) [0..<n] = map (\<lambda>i. i) [0..<n]"
    using assms(2) by (intro map_cong) (auto simp: unat_u16_small)
  finally show ?thesis by simp
qed

lemma probe_stores_pages:
  assumes "length perm = unat (asize opts)" "\<forall>r\<in>set perm. unat r < unat (asize opts)"
  shows "fst ` set (probe_stores opts perm c pt) \<subseteq> {..<unat (asize opts)}"
  using assms(2) by (auto simp: probe_stores_def Let_def)

lemma translate_mapped:
  assumes "devmem_open M" and "canonical v" and "mmu (phys M) cr3 v = Some pa"
  shows "translate M cr3 v 0 = Inr pa"
  using assms
  by (auto simp: translate_unrolled Let_def mmu_def upper_ok_def less_3_cases split: if_splits)

lemma check_pages_ok:
  assumes "devmem_open M" and "\<forall>i\<in>set is. canonical (window_page big i)"
    and "\<forall>i\<in>set is. mmu (phys M) cr3 (window_page big i) \<noteq> None"
  shows "check_pages M cr3 big is = Inr ()"
  using assms by (induction "is") (auto simp: translate_mapped)

lemma canonical_vpage: "p < 2 ^ 35 \<Longrightarrow> canonical (vpage p)"
  unfolding vpage_def by (rule canonical_low) simp

lemma unat_ucast_u16: "unat (ucast (r :: u16) :: u32) = unat r"
proof -
  have "unat r < 2 ^ 16" using unsigned_less [of r] by simp
  then have "unat r < 2 ^ 32" by simp
  then show ?thesis by (simp add: unsigned_ucast_eq take_bit_nat_eq_self)
qed

lemma randindex2_eq:
  assumes "unat r < 16384"
  shows "unat (fst (randindex2 r)) = 8 * unat r"
    and "unat (snd (randindex2 r)) = 4096 * unat r + 64 * (unat r mod 64)"
proof -
  show "unat (fst (randindex2 r)) = 8 * unat r"
    using assms by (simp add: randindex2_def unat_word_ariths unat_ucast_u16)
  have a: "unat (push_bit 12 (ucast r) :: u32) = 2 ^ 12 * unat r"
    using assms by (simp add: push_bit_eq_mult unat_word_ariths unat_ucast_u16)
  have b: "unat (push_bit 6 (ucast r AND 0x3f) :: u32) = 64 * (unat r mod 64)"
    by (simp add: push_bit_eq_mult unat_word_ariths unsigned_and_eq unat_ucast_u16 and_63_mod)
  show "unat (snd (randindex2 r)) = 4096 * unat r + 64 * (unat r mod 64)"
    unfolding randindex2_def snd_conv unsigned_or_eq a b
    by (subst or_low_bits) simp_all
qed

lemma imuls_zero: "imuls k 0 = 0"
  by (induction k) simp_all

section \<open>A concrete run\<close>

definition two_pages :: byte_mem where
  "two_pages = store_all store64 (\<lambda>_. 0)
     [(0x1000, 0x2003), (0x2000, 0x3003), (0x3000, 0x4003), (0x4008, 0x9003), (0x4010, 0xa003)]"

definition two_pages_env :: paging_env where
  "two_pages_env =
     \<lparr>proc_pgmod = Some (0x1000, 0x6f0), open_devmem = 3, env_bigbuf = 0x1000, env_window = 0x4000,
      env_rand = (\<lambda>i. i * i + 1), env_loads = (\<lambda>t. if t mod 3 = 0 then 2 else 1),
      env_index = [7, 7], env_u64 = (\<lambda>_. 5), env_int = 0\<rparr>"

lemma two_pages_loads:
  "load64 two_pages 0x1000 = 0x2003" "load64 two_pages 0x2000 = 0x3003"
  "load64 two_pages 0x3000 = 0x4003" "load64 two_pages 0x4008 = 0x9003" "load64 two_pages 0x4010 = 0xa003"
  by (simp_all add: two_pages_def mem64.load_store_same mem64.load_store_apart apart64_def)

lemma two_pages_zero: "load64 two_pages 0x3008 = 0"
  by (simp_all add: two_pages_def mem64.load_store_apart apart64_def)
    (simp_all add: load64_def read_bytes_def upt_rec)

lemma two_pages_vpages: "vpage 0 = 0" "vpage 1 = 0x1000" "vpage (Suc 0) = 0x1000" "vpage 2 = 0x2000"
  "vpage 4 = 0x4000" "vpage 5 = 0x5000" "vpage 512 = 0x200000"
  by (simp_all add: vpage_def)

lemma two_pages_slots:
  "\<forall>v\<in>{0, 0x1000, 0x2000, 0x4000, 0x5000, 0x200000}.
     slot two_pages 0x1000 v 0 = 0x1000 \<and> slot two_pages 0x1000 v (Suc 0) = 0x2000"
  "\<forall>v\<in>{0, 0x1000, 0x2000, 0x4000, 0x5000}. slot two_pages 0x1000 v 2 = 0x3000"
  "slot two_pages 0x1000 0x200000 2 = 0x3008"
  "slot two_pages 0x1000 0x1000 3 = 0x4008" "slot two_pages 0x1000 0x2000 3 = 0x4010"
  "slot two_pages 0x1000 0x4000 3 = 0x4020" "slot two_pages 0x1000 0x5000 3 = 0x4028"
  by (simp_all add: slot.simps slot_unfold two_pages_loads index_eval)

lemma two_pages_setting: "window_setting two_pages 0x1000 4 1 2 2"
proof -
  have sets: "{4..<4 + 2} \<union> {1..<1 + 2} = {1, 2, 4, 5 :: nat}" "{..<2} = {0, 1 :: nat}"
    "{4..<4 + 2} \<inter> {1..<1 + 2} = ({} :: nat set)" by auto
  show ?thesis
    unfolding window_setting_def sets tables_apart_def
    by (simp add: two_pages_vpages two_pages_slots upper_ok_def region_ok_def less_3_cases less_2_cases
        two_pages_loads two_pages_zero pte_present_def pte_large_def walk_avoids_def apart64_def)
qed

section \<open>Properties\<close>





text \<open>
  C30: for every sequence of random numbers and whatever the array held before, the loop that
  fills \<^verbatim>\<open>randindex\<close> makes it a permutation of the page numbers, so each page is visited once.
\<close>

theorem shuffle_permutation:
  assumes "length xs = n" and "n \<le> 16384"
  shows "mset (map unat (shuffle rand n xs)) = mset [0..<n]"
  using shuffle_visits [OF assms(1)] assms(2) by simp

theorem shuffle_permutation_witness:
  "mset (map unat (shuffle (\<lambda>i. 3 * i + 1) 4 [9, 9, 9, 9])) = mset [0..<4]"
  using shuffle_permutation [of "[9, 9, 9, 9]" 4 "\<lambda>i. 3 * i + 1"] by simp

text \<open>
  in mode 1 the register \<^verbatim>\<open>x\<close> stays zero, in the variants that read the load too as long as
  the loads return the value 1, which the program keeps mapped: every load is from the
  address the program computed for the page.
\<close>

theorem mode1_offsets_zero:
  assumes "0 \<le> cd" and "cd \<le> 7" and "\<forall>t. ld t = 1"
  shows "mode1_run cd ld t k 0 1 = replicate k 0"
proof (induction k arbitrary: t)
  case 0
  then show ?case by simp
next
  case (Suc k)
  have "chain_start cd 0 1 = 0" by (simp add: chain_start_def)
  with Suc.IH [of "t + 1"] assms(3) show ?case
    by (simp add: mode1_visit_def imuls_zero Let_def)
qed

theorem mode1_offsets_zero_witness: "mode1_run 7 (\<lambda>_. 1) 0 3 0 1 = [0, 0, 0]"
  using mode1_offsets_zero [of 7 "\<lambda>_. 1" 0 3] by (simp add: numeral_3_eq_3)

text \<open>
  the two offsets kept for a page stay inside it: the entry offset selects the page's entry
  and the data offset is a whole word inside the page.
\<close>

text \<open>
  the two offsets kept for a page: the first is that of the page's entry, and the second
  is that of the start of one of the 64 lines of the page, the same for pages that agree in
  the lower six bits of their number.
\<close>

theorem randindex2_in_page:
  assumes "unat r < 16384"
  shows "unat (fst (randindex2 r)) = 8 * unat r \<and>
    (\<exists>line<64. unat (snd (randindex2 r)) = 4096 * unat r + 64 * line \<and> line = unat r mod 64)"
  using randindex2_eq [OF assms] by simp

theorem randindex2_in_page_witness:
  "\<exists>line<64. unat (snd (randindex2 67)) = 4096 * 67 + 64 * line \<and> line = (3 :: nat)"
  using randindex2_in_page [of 67] by simp


end
