(* ===== verification/Pgmod.thy ===== *)
theory Pgmod
  imports Pagewalk C_Numbers
begin

text \<open>
  The kernel module \<^verbatim>\<open>bmks/pagewalk_coherence/pgmod.c\<close> and how \<^verbatim>\<open>paging.cc\<close> uses it.  Reading
  \<^verbatim>\<open>/proc/pgmod\<close> gives the registers CR3 and CR4 as two hexadecimal lines, which \<^verbatim>\<open>main\<close> reads back
  with \<^verbatim>\<open>fscanf\<close>; writing to it flushes the TLBs of all processors; and while the module is loaded,
  a probe makes the kernel's \<^verbatim>\<open>devmem_is_allowed\<close> return 1, so that \<^verbatim>\<open>/dev/mem\<close> gives access to all
  of physical memory.
\<close>

section \<open>The module\<close>

text \<open>What the module changes of the kernel's state.\<close>

record pgmod_kernel =
  proc_entry :: bool
  probe_on :: bool
  tlb :: "nat \<Rightarrow> u64 \<rightharpoonup> u64"

definition kretprobe_return_one :: "u32 \<Rightarrow> u32" where
  "kretprobe_return_one ret = 1"

text \<open>What callers of \<^verbatim>\<open>devmem_is_allowed\<close> get when the kernel's own answer is \<open>ret\<close>.\<close>

definition devmem_is_allowed :: "pgmod_kernel \<Rightarrow> u32 \<Rightarrow> u32" where
  "devmem_is_allowed k ret = (if probe_on k then kretprobe_return_one ret else ret)"

text \<open>\<open>reg\<close> is the result of \<^verbatim>\<open>register_kretprobe\<close>.\<close>

definition pgmod_init :: "int \<Rightarrow> pgmod_kernel \<Rightarrow> int \<times> pgmod_kernel" where
  "pgmod_init reg k = (0, k\<lparr>proc_entry := True, probe_on := (0 \<le> reg)\<rparr>)"

definition pgmod_cleanup :: "pgmod_kernel \<Rightarrow> pgmod_kernel" where
  "pgmod_cleanup k = k\<lparr>proc_entry := False, probe_on := False\<rparr>"

definition do_flush_tlb_all :: "(u64 \<rightharpoonup> u64) \<Rightarrow> (u64 \<rightharpoonup> u64)" where
  "do_flush_tlb_all t = Map.empty"

definition pgmod_proc_write :: "nat \<Rightarrow> pgmod_kernel \<Rightarrow> nat \<times> pgmod_kernel" where
  "pgmod_proc_write sz k = (sz, k\<lparr>tlb := \<lambda>cpu. do_flush_tlb_all (tlb k cpu)\<rparr>)"

text \<open>The directive \<^verbatim>\<open>%llx\<close> of \<^verbatim>\<open>sprintf\<close>.\<close>

definition hex_char :: "nat \<Rightarrow> char" where
  "hex_char d = char_of (if d < 10 then 48 + d else 87 + d)"

fun hex_digits :: "nat \<Rightarrow> nat list" where
  "hex_digits n = (if n < 16 then [n] else hex_digits (n div 16) @ [n mod 16])"

declare hex_digits.simps [simp del]

definition hex_line :: "u64 \<Rightarrow> string" where
  "hex_line w = map hex_char (hex_digits (unat w)) @ [CHR 0x0A]"

text \<open>
  A read at offset \<open>off\<close>: what is copied to the user's buffer, the returned length and the new
  offset.  The text goes through a buffer of 32 bytes.
\<close>

definition pgmod_proc_read :: "u64 \<Rightarrow> u64 \<Rightarrow> int \<Rightarrow> fault + (string \<times> nat \<times> int)" where
  "pgmod_proc_read cr3 cr4 off =
     (if off \<ge> 1 then Inr ([], 0, off)
      else
        (let kbuf = hex_line cr3 @ hex_line cr4; len = length kbuf + 1
         in if 32 < len then Inl OutOfBounds
            else Inr (kbuf @ [CHR 0x00], len, off + 1)))"

section \<open>The reader\<close>

text \<open>
  The library reads until a read returns 0: the text of the file.  The bound on the number of
  reads is never reached, as the second read ends the loop.
\<close>

fun pgmod_file :: "u64 \<Rightarrow> u64 \<Rightarrow> nat \<Rightarrow> int \<Rightarrow> fault + string" where
  "pgmod_file cr3 cr4 0 off = Inl OutOfBounds"
| "pgmod_file cr3 cr4 (Suc fuel) off =
     (case pgmod_proc_read cr3 cr4 off of
        Inl f \<Rightarrow> Inl f
      | Inr (s, len, off') \<Rightarrow>
          if len = 0 then Inr []
          else
            (case pgmod_file cr3 cr4 fuel off' of
               Inl f \<Rightarrow> Inl f
             | Inr rest \<Rightarrow> Inr (s @ rest)))"

text \<open>\<^verbatim>\<open>fscanf(f, "%llx ", &x)\<close>: the value, if any, and the input left.\<close>

definition scan_llx :: "string \<Rightarrow> (u64 \<times> string) option" where
  "scan_llx s =
     (let t = dropWhile c_isspace s;
          neg = (take 1 t = ''-'');
          t1 = (if take 1 t = ''-'' \<or> take 1 t = ''+'' then drop 1 t else t);
          t2 = (if take 2 t1 = ''0x'' \<or> take 2 t1 = ''0X'' then drop 2 t1 else t1);
          ds = take_digits 16 t2; v = of_nat (digits_value 16 ds)
      in if ds = [] then None
         else Some (if neg then - v else v, dropWhile c_isspace (drop (length ds) t2)))"

definition read_registers :: "string \<Rightarrow> (u64 \<times> u64) option" where
  "read_registers s =
     (case scan_llx s of
        None \<Rightarrow> None
      | Some (cr3, s') \<Rightarrow> (case scan_llx s' of None \<Rightarrow> None | Some (cr4, _) \<Rightarrow> Some (cr3, cr4)))"

text \<open>\<^verbatim>\<open>pgmod_flush_tlb\<close> of \<^verbatim>\<open>paging.cc\<close>.\<close>

definition pgmod_flush_tlb :: "pgmod_kernel \<Rightarrow> pgmod_kernel" where
  "pgmod_flush_tlb k = (if proc_entry k then snd (pgmod_proc_write 1 k) else k)"

text \<open>\<^verbatim>\<open>/dev/mem\<close> as a process sees it that has opened it as \<open>fd\<close>; \<open>own\<close> is the kernel's own check.\<close>

definition devmem_machine :: "pgmod_kernel \<Rightarrow> (u64 \<Rightarrow> u32) \<Rightarrow> int \<Rightarrow> byte_mem \<Rightarrow> machine" where
  "devmem_machine k own fd m =
     \<lparr>fd_devmem = fd, phys = m, devmem_ok = (\<lambda>a. devmem_is_allowed k (own a) \<noteq> 0)\<rparr>"

section \<open>Printing and reading back\<close>

lemma c_digit_hex_char: "d < 16 \<Longrightarrow> c_digit (hex_char d) = Some d"
  by (auto simp: c_digit_def hex_char_def Let_def)

lemma hex_char_not_space: "d < 16 \<Longrightarrow> \<not> c_isspace (hex_char d)"
  by (auto simp: c_isspace_def hex_char_def Let_def)

lemma hex_digits_less: "d \<in> set (hex_digits n) \<Longrightarrow> d < 16"
proof (induction n rule: hex_digits.induct)
  case (1 n)
  then show ?case by (cases "n < 16") (auto simp: hex_digits.simps [of n])
qed

lemma hex_digits_value: "digits_value 16 (hex_digits n) = n"
proof (induction n rule: hex_digits.induct)
  case (1 n)
  then show ?case
    by (subst hex_digits.simps) (simp add: digits_value_snoc, simp add: digits_value_def)
qed

lemma hex_digits_nonempty: "hex_digits n \<noteq> []"
  by (subst hex_digits.simps) simp

lemma length_hex_digits: "n < 16 ^ Suc k \<Longrightarrow> length (hex_digits n) \<le> Suc k"
proof (induction k arbitrary: n)
  case 0
  then show ?case by (subst hex_digits.simps) simp
next
  case (Suc k)
  have "n div 16 < 16 ^ Suc k" using Suc.prems by (simp add: less_mult_imp_div_less mult.commute)
  from Suc.IH [OF this] show ?case by (subst hex_digits.simps) simp
qed

lemma take_digits_hex:
  assumes "\<forall>d\<in>set ds. d < 16" "t = [] \<or> c_digit (hd t) = None"
  shows "take_digits 16 (map hex_char ds @ t) = ds"
  using assms
proof (induction ds)
  case Nil
  then show ?case by (cases t) auto
qed (simp add: c_digit_hex_char)

lemma hex_char_plain:
  assumes "d < 16"
  shows "hex_char d \<noteq> CHR ''-''" "hex_char d \<noteq> CHR ''+''" "hex_char d \<noteq> CHR ''x''" "hex_char d \<noteq> CHR ''X''"
proof -
  have "c_digit c \<noteq> Some d" if "c \<in> {CHR ''-'', CHR ''+'', CHR ''x'', CHR ''X''}" for c
    using that assms by (auto simp: c_digit_def Let_def)
  with c_digit_hex_char [OF assms] show "hex_char d \<noteq> CHR ''-''" "hex_char d \<noteq> CHR ''+''"
    "hex_char d \<noteq> CHR ''x''" "hex_char d \<noteq> CHR ''X''" by (metis insertCI)+
qed

lemma hex_line_plain:
  obtains c cs where "hex_line w = c # cs" "\<not> c_isspace c" "c \<noteq> CHR ''-''" "c \<noteq> CHR ''+''"
    "take 1 (cs @ t) \<noteq> ''x''" "take 1 (cs @ t) \<noteq> ''X''"
proof -
  obtain d ds where dd: "hex_digits (unat w) = d # ds"
    using hex_digits_nonempty [of "unat w"] by (cases "hex_digits (unat w)") auto
  have less: "d < 16" "\<And>e. e \<in> set ds \<Longrightarrow> e < 16" using hex_digits_less [of _ "unat w"] dd by auto
  have "take 1 ((map hex_char ds @ [CHR 0x0A]) @ t) \<noteq> ''x''" "take 1 ((map hex_char ds @ [CHR 0x0A]) @ t) \<noteq> ''X''"
    using less(2) hex_char_plain by (cases ds; simp)+
  then show thesis
    using that [of "hex_char d" "map hex_char ds @ [CHR 0x0A]"] hex_char_plain [OF less(1)]
      hex_char_not_space [OF less(1)] dd by (simp add: hex_line_def)
qed

lemma scan_hex_line:
  assumes "\<not> c_isspace (hd t)" "t \<noteq> []"
  shows "scan_llx (hex_line w @ t) = Some (w, t)"
proof -
  let ?ds = "hex_digits (unat w)"
  obtain c cs where c: "hex_line w = c # cs" "\<not> c_isspace c" "c \<noteq> CHR ''-''" "c \<noteq> CHR ''+''"
    "take 1 (cs @ t) \<noteq> ''x''" "take 1 (cs @ t) \<noteq> ''X''"
    using hex_line_plain by metis
  have less: "\<forall>d\<in>set ?ds. d < 16" using hex_digits_less by blast
  have "c_digit (CHR 0x0A) = None" "c_isspace (CHR 0x0A)"
    by (simp_all add: c_digit_def c_isspace_def Let_def)
  then have ds: "take_digits 16 (hex_line w @ t) = ?ds" "dropWhile c_isspace (CHR 0x0A # t) = t"
    using take_digits_hex [OF less, of "CHR 0x0A # t"] assms
    by (simp_all add: hex_line_def) (cases t, simp_all)
  have pre: "take 2 (hex_line w @ t) \<noteq> ''0x''" "take 2 (hex_line w @ t) \<noteq> ''0X''"
    using c(5,6) by (auto simp: c(1) numeral_2_eq_2)
  have plain: "dropWhile c_isspace (hex_line w @ t) = hex_line w @ t"
    "take 1 (hex_line w @ t) \<noteq> ''-''" "take 1 (hex_line w @ t) \<noteq> ''+''"
    using c by simp_all
  have "drop (length ?ds) (hex_line w @ t) = CHR 0x0A # t" by (simp add: hex_line_def)
  then show ?thesis
    using hex_digits_nonempty [of "unat w"]
    by (simp only: scan_llx_def Let_def plain pre ds if_False de_Morgan_disj simp_thms hex_digits_value u64_of_nat_unat)
qed

lemma length_hex_line: "unat w < 16 ^ Suc k \<Longrightarrow> length (hex_line w) \<le> k + 2"
  using length_hex_digits [of "unat w" k] by (simp add: hex_line_def)

section \<open>Properties\<close>

text \<open>
  C35: with a CR3 of at most 52 bits the module's text fits its buffer, reading the file ends, and
  \<^verbatim>\<open>main\<close> gets back exactly the two registers.
\<close>

theorem pgmod_registers_roundtrip:
  assumes "cr3 < 2 ^ 52" and "2 \<le> fuel"
  shows "\<exists>s. pgmod_file cr3 cr4 fuel 0 = Inr s \<and> read_registers s = Some (cr3, cr4)"
proof -
  have "unat cr3 < unat (2 ^ 52 :: u64)" using assms(1) by (simp only: word_less_nat_alt)
  then have "length (hex_line cr3) \<le> 14" using length_hex_line [of cr3 12] by simp
  moreover have "length (hex_line cr4) \<le> 17"
    using length_hex_line [of cr4 15] unsigned_less [of cr4] by simp
  ultimately have fits: "\<not> 32 < length (hex_line cr3 @ hex_line cr4) + 1" by simp
  let ?s = "hex_line cr3 @ hex_line cr4 @ [CHR 0x00]"
  obtain n where fuel: "fuel = Suc (Suc n)" using assms(2) by (metis One_nat_def Suc_1 Suc_le_D add_2_eq_Suc' le_Suc_ex add.commute)
  have "pgmod_file cr3 cr4 fuel 0 = Inr ?s"
    using fits unfolding fuel by (simp add: pgmod_proc_read_def Let_def)
  moreover have "read_registers ?s = Some (cr3, cr4)"
  proof -
    obtain c cs where c: "hex_line cr4 = c # cs" "\<not> c_isspace c" using hex_line_plain by metis
    have "scan_llx ?s = Some (cr3, hex_line cr4 @ [CHR 0x00])" by (rule scan_hex_line) (simp_all add: c)
    moreover have "scan_llx (hex_line cr4 @ [CHR 0x00]) = Some (cr4, [CHR 0x00])"
      by (rule scan_hex_line) (simp_all add: c_isspace_def)
    ultimately show ?thesis by (simp add: read_registers_def)
  qed
  ultimately show ?thesis by blast
qed

theorem pgmod_registers_roundtrip_witness:
  "\<exists>s. pgmod_file 0x10a4b2000 0x3706f0 2 0 = Inr s \<and> read_registers s = Some (0x10a4b2000, 0x3706f0)"
  using pgmod_registers_roundtrip [of "0x10a4b2000" 2 "0x3706f0"] by simp

text \<open>
  once the module is loaded with its probe registered, \<^verbatim>\<open>/dev/mem\<close> is open in the sense the
  page-table routines need, whatever the kernel's own check says; unloading it brings the
  kernel's check back; and a flush empties every TLB.
\<close>

theorem pgmod_opens_devmem:
  assumes "0 \<le> reg" and "0 \<le> fd"
  shows "devmem_open (devmem_machine (snd (pgmod_init reg k)) own fd m) \<and>
    devmem_is_allowed (pgmod_cleanup (snd (pgmod_init reg k))) ret = ret \<and>
    tlb (pgmod_flush_tlb (snd (pgmod_init reg k))) cpu = Map.empty"
  using assms
  by (simp add: devmem_open_def devmem_machine_def pgmod_init_def devmem_is_allowed_def
      kretprobe_return_one_def pgmod_cleanup_def pgmod_flush_tlb_def pgmod_proc_write_def do_flush_tlb_all_def)

theorem pgmod_opens_devmem_witness:
  "devmem_open (devmem_machine
     (snd (pgmod_init 0 \<lparr>proc_entry = False, probe_on = False, tlb = \<lambda>_. Map.empty\<rparr>)) (\<lambda>_. 0) 3 (\<lambda>_. 0))"
  using pgmod_opens_devmem [of 0 3 "\<lparr>proc_entry = False, probe_on = False, tlb = \<lambda>_. Map.empty\<rparr>" "\<lambda>_. 0"
    "\<lambda>_. 0" 0 0] by simp

text \<open>
  the buffer is not large enough for every pair of registers: two values of sixteen digits
  make the module write past its end.
\<close>

theorem pgmod_buffer_overflow: "pgmod_proc_read (2 ^ 60) (2 ^ 60) 0 = Inl OutOfBounds"
proof -
  have "length (hex_digits (2 ^ 60)) = 16"
    by (simp add: hex_digits.simps)
  then show ?thesis by (simp add: pgmod_proc_read_def hex_line_def Let_def)
qed

end
