(* ===== verification/Thread_Schedules.thy ===== *)
theory Thread_Schedules
  imports Fbmm_Prelude
begin

text \<open>
  Threads that share a byte memory.  A schedule is the list of the threads that make a step,
  in the order of the steps.  The interface \<open>isolated_threads\<close> states what a set of threads
  has to promise so that no schedule can make a difference: each thread reads and writes its
  own region only, the regions are disjoint, and no step faults.
\<close>

fun run_schedule ::
  "(nat \<Rightarrow> 's \<Rightarrow> byte_mem \<Rightarrow> fault + ('s \<times> byte_mem)) \<Rightarrow> nat list \<Rightarrow>
   (nat \<Rightarrow> 's) \<Rightarrow> byte_mem \<Rightarrow> fault + ((nat \<Rightarrow> 's) \<times> byte_mem)" where
  "run_schedule step [] S m = Inr (S, m)"
| "run_schedule step (k # ks) S m =
     (case step k (S k) m of
        Inl f \<Rightarrow> Inl f
      | Inr (s, m') \<Rightarrow> run_schedule step ks (S(k := s)) m')"

text \<open>One thread that makes \<open>n\<close> steps on its own.\<close>

fun run_alone ::
  "('s \<Rightarrow> byte_mem \<Rightarrow> fault + ('s \<times> byte_mem)) \<Rightarrow> nat \<Rightarrow> 's \<Rightarrow> byte_mem \<Rightarrow>
   fault + ('s \<times> byte_mem)" where
  "run_alone step 0 s m = Inr (s, m)"
| "run_alone step (Suc n) s m =
     (case step s m of
        Inl f \<Rightarrow> Inl f
      | Inr (s', m') \<Rightarrow> run_alone step n s' m')"

lemma run_schedule_alone:
  "run_schedule step (replicate n k @ ks) S m =
     (case run_alone (step k) n (S k) m of
        Inl f \<Rightarrow> Inl f
      | Inr (s, m') \<Rightarrow> run_schedule step ks (S(k := s)) m')"
  by (induction n arbitrary: S m) (auto split: sum.splits)

locale isolated_threads =
  fixes step :: "nat \<Rightarrow> 's \<Rightarrow> byte_mem \<Rightarrow> fault + ('s \<times> byte_mem)"
    and region :: "nat \<Rightarrow> u64 set"
    and ok :: "nat \<Rightarrow> 's \<Rightarrow> bool"
    and threads :: nat
  assumes disjoint: "j < threads \<Longrightarrow> k < threads \<Longrightarrow> a \<in> region j \<Longrightarrow> a \<in> region k \<Longrightarrow> j = k"
    and safe: "k < threads \<Longrightarrow> ok k s \<Longrightarrow> \<exists>s' m'. step k s m = Inr (s', m') \<and> ok k s'"
    and writes: "k < threads \<Longrightarrow> ok k s \<Longrightarrow> step k s m = Inr (s', m') \<Longrightarrow> a \<notin> region k \<Longrightarrow> m' a = m a"
    and reads: "k < threads \<Longrightarrow> ok k s \<Longrightarrow> (\<And>a. a \<in> region k \<Longrightarrow> n a = m a) \<Longrightarrow>
      step k s m = Inr (s', m') \<Longrightarrow>
      \<exists>n'. step k s n = Inr (s', n') \<and> (\<forall>a\<in>region k. n' a = m' a)"
begin

lemma alone_total:
  assumes "k < threads" "ok k s"
  shows "\<exists>s' m'. run_alone (step k) c s m = Inr (s', m') \<and> ok k s' \<and> (\<forall>a. a \<notin> region k \<longrightarrow> m' a = m a)"
  using assms(2)
proof (induction c arbitrary: s m)
  case 0
  then show ?case by simp
next
  case (Suc c)
  obtain s1 m1 where s1: "step k s m = Inr (s1, m1)" "ok k s1"
    using safe [OF assms(1) Suc.prems] by blast
  from Suc.IH [OF s1(2), of m1] writes [OF assms(1) Suc.prems s1(1)] s1(1) show ?case by auto
qed

lemma alone_reads:
  assumes "k < threads" "ok k s" "\<And>a. a \<in> region k \<Longrightarrow> n a = m a"
    and "run_alone (step k) c s m = Inr (s', m')"
  shows "\<exists>n'. run_alone (step k) c s n = Inr (s', n') \<and> (\<forall>a\<in>region k. n' a = m' a)"
  using assms(2-4)
proof (induction c arbitrary: s m n)
  case 0
  then show ?case by simp
next
  case (Suc c)
  obtain s1 m1 where s1: "step k s m = Inr (s1, m1)" "ok k s1"
    using safe [OF assms(1) Suc.prems(1)] by blast
  from reads [OF assms(1) Suc.prems(1,2) s1(1)]
  obtain n1 where n1: "step k s n = Inr (s1, n1)" "\<forall>a\<in>region k. n1 a = m1 a" by blast
  have "run_alone (step k) c s1 m1 = Inr (s', m')" using Suc.prems(3) s1(1) by simp
  from Suc.IH [OF s1(2) _ this, of n1] n1 show ?case by simp
qed

text \<open>
  Under every schedule each thread does exactly what it would do alone, from the memory the
  schedule starts with.
\<close>

lemma schedule_alone:
  assumes "\<forall>k<threads. ok k (S k)" "set ks \<subseteq> {..<threads}"
  shows "\<exists>S' m'. run_schedule step ks S m = Inr (S', m') \<and>
    (\<forall>k<threads. \<exists>mk. run_alone (step k) (count_list ks k) (S k) m = Inr (S' k, mk) \<and>
       (\<forall>a\<in>region k. m' a = mk a)) \<and>
    (\<forall>a. (\<forall>k<threads. a \<notin> region k) \<longrightarrow> m' a = m a)"
  using assms
proof (induction ks arbitrary: S m)
  case Nil
  then show ?case by simp
next
  case (Cons k ks)
  have k: "k < threads" using Cons.prems(2) by simp
  obtain s m1 where s: "step k (S k) m = Inr (s, m1)" "ok k s"
    using safe [OF k] Cons.prems(1) k by blast
  have okS: "\<forall>j<threads. ok j ((S(k := s)) j)" using Cons.prems(1) s(2) by simp
  have ks: "set ks \<subseteq> {..<threads}" using Cons.prems(2) by simp
  from Cons.IH [OF okS ks, of m1] obtain S' m' where
    run: "run_schedule step ks (S(k := s)) m1 = Inr (S', m')" and
    alone: "\<forall>j<threads. \<exists>mj. run_alone (step j) (count_list ks j) ((S(k := s)) j) m1 = Inr (S' j, mj) \<and>
       (\<forall>a\<in>region j. m' a = mj a)" and
    rest: "\<forall>a. (\<forall>j<threads. a \<notin> region j) \<longrightarrow> m' a = m1 a" by blast
  note w = writes [OF k _ s(1)]
  have "\<exists>mj. run_alone (step j) (count_list (k # ks) j) (S j) m = Inr (S' j, mj) \<and>
      (\<forall>a\<in>region j. m' a = mj a)" if j: "j < threads" for j
  proof (cases "j = k")
    case True
    with alone [rule_format, OF j] s(1) show ?thesis by simp
  next
    case False
    from alone [rule_format, OF j] False obtain mj where
      mj: "run_alone (step j) (count_list ks j) (S j) m1 = Inr (S' j, mj)" "\<forall>a\<in>region j. m' a = mj a" by auto
    have "m a = m1 a" if "a \<in> region j" for a
    proof -
      have "a \<notin> region k" using disjoint [OF j k that] False by blast
      with w show ?thesis using Cons.prems(1) k by simp
    qed
    from alone_reads [OF j _ this mj(1)] Cons.prems(1) j mj(2) False show ?thesis by auto
  qed
  then show ?case using run s(1) rest w Cons.prems(1) k by auto
qed

text \<open>Two schedules in which every thread comes to the same state leave the same memory.\<close>

lemma schedules_agree:
  assumes "\<forall>k<threads. ok k (S k)" "set ks \<subseteq> {..<threads}" "set js \<subseteq> {..<threads}"
    and "\<And>k. k < threads \<Longrightarrow>
      run_alone (step k) (count_list ks k) (S k) m = run_alone (step k) (count_list js k) (S k) m"
  shows "\<exists>S1 S2 m'. run_schedule step ks S m = Inr (S1, m') \<and> run_schedule step js S m = Inr (S2, m') \<and>
    (\<forall>k<threads. S1 k = S2 k)"
proof -
  obtain S1 m1 where 1: "run_schedule step ks S m = Inr (S1, m1)"
    "\<forall>k<threads. \<exists>mk. run_alone (step k) (count_list ks k) (S k) m = Inr (S1 k, mk) \<and> (\<forall>a\<in>region k. m1 a = mk a)"
    "\<forall>a. (\<forall>k<threads. a \<notin> region k) \<longrightarrow> m1 a = m a"
    using schedule_alone [OF assms(1,2), of m] by blast
  obtain S2 m2 where 2: "run_schedule step js S m = Inr (S2, m2)"
    "\<forall>k<threads. \<exists>mk. run_alone (step k) (count_list js k) (S k) m = Inr (S2 k, mk) \<and> (\<forall>a\<in>region k. m2 a = mk a)"
    "\<forall>a. (\<forall>k<threads. a \<notin> region k) \<longrightarrow> m2 a = m a"
    using schedule_alone [OF assms(1,3), of m] by blast
  have same: "S1 k = S2 k \<and> (\<forall>a\<in>region k. m1 a = m2 a)" if "k < threads" for k
    using 1(2) 2(2) assms(4) [OF that] that by force
  have "m1 = m2"
  proof
    fix a
    show "m1 a = m2 a"
      using same 1(3) 2(3) by (cases "\<exists>k<threads. a \<in> region k") auto
  qed
  with 1(1) 2(1) same show ?thesis by blast
qed

end

end
