(* ===== verification/Gups.thy ===== *)
theory Gups
  imports Thread_Schedules C_Numbers
begin

text \<open>
  The random-update benchmark \<^verbatim>\<open>bmks/gups/gups.c\<close>, with \<^verbatim>\<open>elapsed\<close> of \<^verbatim>\<open>gups.h\<close>.  \<^verbatim>\<open>main\<close> maps one
  region, divides it among its threads, and runs \<^verbatim>\<open>do_gups\<close> in all of them twice.  The memory
  is a byte memory; an access outside the mapping is a fault.  A thread is a state machine
  whose steps are the read and the write of an update, so that a schedule may come between
  them.  \<^verbatim>\<open>srand\<close> and \<^verbatim>\<open>rand\<close> work on a state that all threads share, so the seed a thread gets
  is an argument.
\<close>

section \<open>The pseudo-random sequence\<close>

definition lfsr_fast :: "u64 \<Rightarrow> u64" where
  "lfsr_fast lfsr =
     (let lfsr = lfsr XOR drop_bit 7 lfsr;
          lfsr = lfsr XOR push_bit 9 lfsr;
          lfsr = lfsr XOR drop_bit 13 lfsr
      in lfsr)"

section \<open>A thread\<close>

record gups_args =
  tid :: nat
  field_start :: u64
  iters :: u64
  region_size :: u64
  elt_size :: u64

text \<open>The address of an element: \<^verbatim>\<open>field[index]\<close> or \<^verbatim>\<open>&field[index * elt_size]\<close>, \<^verbatim>\<open>field\<close> of 64-bit words.\<close>

definition elt_address :: "gups_args \<Rightarrow> u64 \<Rightarrow> u64" where
  "elt_address args index =
     (if elt_size args = 8 then field_start args + index * 8
      else field_start args + (index * elt_size args) * 8)"

definition elt_length :: "gups_args \<Rightarrow> nat" where
  "elt_length args = unat (elt_size args)"

definition mapped :: "u64 \<Rightarrow> u64 \<Rightarrow> u64 \<Rightarrow> nat \<Rightarrow> bool" where
  "mapped p sz a n \<longleftrightarrow> unat (a - p) + n \<le> unat sz"

text \<open>The bytes an update writes back, from the memory it reads and the iteration number.\<close>

definition new_bytes :: "gups_args \<Rightarrow> byte_mem \<Rightarrow> u64 \<Rightarrow> u64 \<Rightarrow> u8 list" where
  "new_bytes args m a i =
     (if elt_size args = 8 then le_bytes 8 (load64 m a + i)
      else replicate (elt_length args) (m a + ucast i))"

text \<open>The loop of \<^verbatim>\<open>do_gups\<close> with \<open>r\<close> iterations to go.\<close>

fun do_gups_loop ::
  "u64 \<Rightarrow> u64 \<Rightarrow> gups_args \<Rightarrow> nat \<Rightarrow> u64 \<Rightarrow> u64 \<Rightarrow> byte_mem \<Rightarrow> fault + byte_mem" where
  "do_gups_loop p sz args 0 i lfsr m = Inr m"
| "do_gups_loop p sz args (Suc r) i lfsr m =
     (let lfsr' = lfsr_fast lfsr in
      if region_size args = 0 then Inl DivByZero
      else
        (let a = elt_address args (lfsr' mod region_size args) in
         if \<not> mapped p sz a (elt_length args) then Inl Segfault
         else do_gups_loop p sz args r (i + 1) lfsr' (write_bytes m a (new_bytes args m a i))))"

definition do_gups :: "u64 \<Rightarrow> u64 \<Rightarrow> gups_args \<Rightarrow> u64 \<Rightarrow> byte_mem \<Rightarrow> fault + byte_mem" where
  "do_gups p sz args seed m = do_gups_loop p sz args (unat (iters args)) 0 seed m"

text \<open>The same as steps: at the head of the loop, or about to write back, or finished.\<close>

datatype gups_pc = AtLoop u64 u64 | AtWrite u64 u64 u64 "u8 list" | Finished

definition gups_step ::
  "u64 \<Rightarrow> u64 \<Rightarrow> gups_args \<Rightarrow> gups_pc \<Rightarrow> byte_mem \<Rightarrow> fault + (gups_pc \<times> byte_mem)" where
  "gups_step p sz args pc m =
     (case pc of
        AtLoop i lfsr \<Rightarrow>
          if i < iters args then
            (let lfsr' = lfsr_fast lfsr in
             if region_size args = 0 then Inl DivByZero
             else
               (let a = elt_address args (lfsr' mod region_size args) in
                if \<not> mapped p sz a (elt_length args) then Inl Segfault
                else Inr (AtWrite i lfsr' a (new_bytes args m a i), m)))
          else Inr (Finished, m)
      | AtWrite i lfsr a bs \<Rightarrow> Inr (AtLoop (i + 1) lfsr, write_bytes m a bs)
      | Finished \<Rightarrow> Inr (Finished, m))"

section \<open>The program\<close>

text \<open>The parameters \<^verbatim>\<open>main\<close> takes from its command line.\<close>

record gups_config =
  threads :: int
  updates :: u64
  region :: u64
  data_size :: u64

definition gups_config_of :: "string list \<Rightarrow> fault + gups_config" where
  "gups_config_of argv =
     (if length argv \<noteq> 5 then Inl (ExitWith 0)
      else
        (let threads = atoi (argv ! 1) in
         if threads > 64 then Inl AssertFail
         else
           (let updates = of_int (atol (argv ! 2)) :: u64;
                updates = updates - updates mod 256;
                expt = of_int (atoi (argv ! 3)) :: u64
            in if \<not> expt > 8 then Inl AssertFail
               else if \<not> (updates > 0 \<and> updates mod 256 = 0) then Inl AssertFail
               else if \<not> unat expt < 64 then Inl UndefinedShift
               else
                 (let sz = push_bit (unat expt) 1;
                      sz = sz - sz mod 256;
                      elt_size = of_int (atoi (argv ! 4)) :: u64
                  in if \<not> (sz > 0 \<and> sz mod 256 = 0) then Inl AssertFail
                     else if elt_size = 0 then Inl DivByZero
                     else Inr \<lparr>threads = threads, updates = updates, region = sz, data_size = elt_size\<rparr>))))"

definition thread_args :: "gups_config \<Rightarrow> u64 \<Rightarrow> u64 \<Rightarrow> nat \<Rightarrow> gups_args" where
  "thread_args cfg p nelems i =
     \<lparr>tid = i, field_start = p + of_nat i * nelems * data_size cfg, iters = updates cfg,
      region_size = nelems, elt_size = data_size cfg\<rparr>"

text \<open>
  One round of creating and joining all threads: \<open>Inr None\<close> stands for a schedule at whose end
  some thread is still to be waited for.
\<close>

definition gups_pass ::
  "u64 \<Rightarrow> u64 \<Rightarrow> nat \<Rightarrow> (nat \<Rightarrow> gups_args) \<Rightarrow> (nat \<Rightarrow> u64) \<Rightarrow> nat list \<Rightarrow> byte_mem \<Rightarrow>
   fault + byte_mem option" where
  "gups_pass p sz T ga seed sched m =
     (case run_schedule (\<lambda>k. gups_step p sz (ga k)) sched (\<lambda>k. AtLoop 0 (seed k)) m of
        Inl f \<Rightarrow> Inl f
      | Inr (S, m') \<Rightarrow> Inr (if list_all (\<lambda>k. S k = Finished) [0..<T] then Some m' else None))"

text \<open>\<open>p\<close> is the result of \<^verbatim>\<open>mmap\<close>, \<open>None\<close> for \<^verbatim>\<open>MAP_FAILED\<close>; each pass has its seeds and its schedule.\<close>

definition gups_main ::
  "string list \<Rightarrow> u64 option \<Rightarrow> (nat \<Rightarrow> u64) \<times> nat list \<Rightarrow> (nat \<Rightarrow> u64) \<times> nat list \<Rightarrow> byte_mem \<Rightarrow>
   fault + byte_mem option" where
  "gups_main argv p pass1 pass2 m =
     (case gups_config_of argv of
        Inl f \<Rightarrow> Inl f
      | Inr cfg \<Rightarrow>
          (case p of
             None \<Rightarrow> Inl AssertFail
           | Some p \<Rightarrow>
               if threads cfg = 0 then Inl DivByZero
               else
                 (let nelems = (region cfg div of_int (threads cfg)) div data_size cfg;
                      T = nat (threads cfg);
                      ga = thread_args cfg p nelems
                  in case gups_pass p (region cfg) T ga (fst pass1) (snd pass1) m of
                       Inl f \<Rightarrow> Inl f
                     | Inr None \<Rightarrow> Inr None
                     | Inr (Some m1) \<Rightarrow> gups_pass p (region cfg) T ga (fst pass2) (snd pass2) m1)))"

text \<open>The difference of two times in seconds and microseconds, as \<^verbatim>\<open>elapsed\<close> normalises it.\<close>

definition elapsed :: "int \<times> int \<Rightarrow> int \<times> int \<Rightarrow> int \<times> int" where
  "elapsed start end_time =
     (let sec = fst end_time - fst start; usec = snd end_time - snd start
      in if usec < 0 then (sec - 1, usec + 1000000) else (sec, usec))"

text \<open>Specification: the threads one after the other.\<close>

fun gups_seq ::
  "u64 \<Rightarrow> u64 \<Rightarrow> (nat \<Rightarrow> gups_args) \<Rightarrow> (nat \<Rightarrow> u64) \<Rightarrow> nat list \<Rightarrow> byte_mem \<Rightarrow> fault + byte_mem" where
  "gups_seq p sz ga seed [] m = Inr m"
| "gups_seq p sz ga seed (k # ks) m =
     (case do_gups p sz (ga k) (seed k) m of
        Inl f \<Rightarrow> Inl f
      | Inr m' \<Rightarrow> gups_seq p sz ga seed ks m')"

text \<open>
  The part of the mapping that belongs to a thread, the states a thread can be in, and a
  mapping that is large enough, for elements of 8 bytes.
\<close>

definition gups_region :: "u64 \<Rightarrow> u64 \<Rightarrow> nat \<Rightarrow> u64 set" where
  "gups_region p nelems k =
     {a. k * (8 * unat nelems) \<le> unat (a - p) \<and> unat (a - p) < Suc k * (8 * unat nelems)}"

definition gups_pc_ok :: "u64 \<Rightarrow> u64 \<Rightarrow> nat \<Rightarrow> gups_pc \<Rightarrow> bool" where
  "gups_pc_ok p nelems k pc =
     (case pc of
        AtWrite i lfsr a bs \<Rightarrow> length bs = 8 \<and> k * (8 * unat nelems) \<le> unat (a - p) \<and>
          unat (a - p) + 8 \<le> Suc k * (8 * unat nelems)
      | _ \<Rightarrow> True)"

definition gups_fits :: "u64 \<Rightarrow> gups_config \<Rightarrow> u64 \<Rightarrow> nat \<Rightarrow> bool" where
  "gups_fits sz cfg nelems T \<longleftrightarrow>
     data_size cfg = 8 \<and> 0 < unat nelems \<and> T * (8 * unat nelems) \<le> unat sz"

text \<open>What the command line \<^verbatim>\<open>gups T U E 8\<close> stands for.\<close>

definition command_config :: "nat \<Rightarrow> nat \<Rightarrow> nat \<Rightarrow> gups_config" where
  "command_config T U E =
     \<lparr>threads = int T, updates = of_nat (U - U mod 256), region = of_nat (2 ^ E), data_size = 8\<rparr>"

definition command_elems :: "nat \<Rightarrow> nat \<Rightarrow> u64" where
  "command_elems T E = of_nat (2 ^ E div T div 8)"

section \<open>The sequence\<close>

lemma drop_bit_fixed:
  fixes z :: u64
  assumes "z = drop_bit k z" "0 < k"
  shows "z = 0"
proof (rule ccontr)
  assume "z \<noteq> 0"
  then have "0 < unat z" by (simp add: unat_gt_0)
  moreover have "unat z = unat z div 2 ^ k"
    using arg_cong [OF assms(1), of unat] take_bit_nat_eq_self [OF unsigned_less [of z]]
    by (simp only: unsigned_drop_bit_eq) (simp add: drop_bit_eq_div)
  moreover have "unat z div 2 ^ k < unat z" if "0 < unat z"
    using that assms(2) by (intro div_less_dividend one_less_power) simp_all
  ultimately show False by simp
qed

lemma push_bit_fixed:
  fixes z :: u64
  assumes "z = push_bit k z" "0 < k"
  shows "z = 0"
proof (rule bit_word_eqI)
  fix n
  assume "n < LENGTH(64)"
  then show "bit z n = bit 0 n"
  proof (induction n rule: less_induct)
    case (less n)
    have "bit z n = bit (push_bit k z) n" using assms(1) by simp
    with less assms(2) show ?case by (auto simp: bit_push_bit_iff)
  qed
qed

lemma xor_swap:
  fixes x y a b :: u64
  assumes "x XOR a = y XOR b"
  shows "x XOR y = a XOR b"
proof (rule bit_word_eqI)
  fix n
  have "bit (x XOR a) n = bit (y XOR b) n" using assms by simp
  then show "bit (x XOR y) n = bit (a XOR b) n" by (simp add: bit_xor_iff) blast
qed

lemma xor_zero:
  fixes x y :: u64
  assumes "x XOR y = 0"
  shows "x = y"
proof (rule bit_word_eqI)
  fix n
  have "bit (x XOR y) n = False" using assms by simp
  then show "bit x n = bit y n" by (simp add: bit_xor_iff)
qed

lemma inj_xorshift:
  fixes f :: "u64 \<Rightarrow> u64"
  assumes "\<And>x y. f (x XOR y) = f x XOR f y" and "\<And>z. z = f z \<Longrightarrow> z = 0"
  shows "inj (\<lambda>x. x XOR f x)"
proof (rule injI)
  fix x y
  assume "x XOR f x = y XOR f y"
  then have "x XOR y = f (x XOR y)" unfolding assms(1) by (rule xor_swap)
  then show "x = y" by (rule xor_zero [OF assms(2)])
qed

lemma lfsr_fast_inj: "inj lfsr_fast"
proof -
  have r: "inj (\<lambda>x :: u64. x XOR drop_bit k x)" if "0 < k" for k
    using that by (intro inj_xorshift) (auto simp: drop_bit_xor dest: drop_bit_fixed)
  have l: "inj (\<lambda>x :: u64. x XOR push_bit k x)" if "0 < k" for k
    using that by (intro inj_xorshift) (auto simp: push_bit_xor dest: push_bit_fixed)
  have eq: "lfsr_fast = (\<lambda>x. x XOR drop_bit 13 x) \<circ> (\<lambda>x. x XOR push_bit 9 x) \<circ> (\<lambda>x. x XOR drop_bit 7 x)"
    by (simp add: fun_eq_iff lfsr_fast_def Let_def)
  show ?thesis unfolding eq by (intro inj_compose r l) simp_all
qed

lemma lfsr_fast_0: "lfsr_fast 0 = 0" by (simp add: lfsr_fast_def)

section \<open>The threads keep to their regions\<close>

lemma elt_offset:
  assumes "gups_fits sz cfg nelems T" "k < T" "index < nelems"
  shows "unat (elt_address (thread_args cfg p nelems k) index - p) = k * (8 * unat nelems) + 8 * unat index"
    and "k * (8 * unat nelems) + 8 * unat index + 8 \<le> Suc k * (8 * unat nelems)"
    and "Suc k * (8 * unat nelems) \<le> unat sz"
proof -
  have i: "unat index < unat nelems" using assms(3) by (simp add: word_less_nat_alt)
  then show le: "k * (8 * unat nelems) + 8 * unat index + 8 \<le> Suc k * (8 * unat nelems)" by simp
  have "Suc k * (8 * unat nelems) \<le> T * (8 * unat nelems)" using assms(2) by (intro mult_le_mono1) simp
  then show sz: "Suc k * (8 * unat nelems) \<le> unat sz" using assms(1) unfolding gups_fits_def by linarith
  have "unat sz < 2 ^ 64" using unsigned_less [of sz] unfolding len64 .
  then have lt: "k * (8 * unat nelems) + 8 * unat index < 2 ^ LENGTH(64)"
    unfolding len64 using le sz by linarith
  have "elt_address (thread_args cfg p nelems k) index - p =
      of_nat k * nelems * 8 + index * 8"
    using assms(1) by (simp add: elt_address_def thread_args_def gups_fits_def)
  also have "\<dots> = of_nat (k * (8 * unat nelems) + 8 * unat index)"
    by (simp add: mult.commute mult.left_commute)
  finally show "unat (elt_address (thread_args cfg p nelems k) index - p) =
      k * (8 * unat nelems) + 8 * unat index"
    by (simp only: unat_of_nat mod_less [OF lt])
qed

lemma cell_in_region:
  assumes "k * (8 * unat nelems) \<le> unat (a - p)" "unat (a - p) + 8 \<le> Suc k * (8 * unat nelems)"
    and "Suc k * (8 * unat nelems) \<le> unat (sz :: u64)" "unat (x - a) < 8"
  shows "x \<in> gups_region p nelems k"
proof -
  have "unat sz < 2 ^ 64" using unsigned_less [of sz] unfolding len64 .
  then have "unat (x - p) = unat (a - p) + unat (x - a)"
    using assms by (intro cell_byte) linarith+
  with assms show ?thesis unfolding gups_region_def by simp
qed

lemma gups_step_loop:
  fixes p :: u64
  assumes "gups_fits sz cfg nelems T" "k < T"
  defines "args \<equiv> thread_args cfg p nelems k"
  shows "gups_step p sz args (AtLoop i lfsr) m =
    Inr (if i < updates cfg
         then let a = elt_address args (lfsr_fast lfsr mod nelems)
              in AtWrite i (lfsr_fast lfsr) a (le_bytes 8 (load64 m a + i))
         else Finished, m)"
proof -
  have n: "0 < nelems" using assms(1) by (simp add: gups_fits_def word_less_nat_alt)
  have "lfsr_fast lfsr mod nelems < nelems"
    using n by (simp add: word_less_nat_alt unat_mod)
  from elt_offset [OF assms(1,2) this] assms(1)
  have "mapped p sz (elt_address args (lfsr_fast lfsr mod nelems)) (elt_length args)"
    unfolding mapped_def args_def elt_length_def by (simp add: thread_args_def gups_fits_def)
  moreover have "region_size args = nelems" "elt_size args = 8" "iters args = updates cfg"
    using assms(1) by (simp_all add: args_def thread_args_def gups_fits_def)
  ultimately show ?thesis
    using n by (auto simp: gups_step_def new_bytes_def Let_def)
qed

lemma mod_nelems:
  assumes "gups_fits sz cfg nelems T"
  shows "x mod nelems < nelems"
proof -
  have "0 < unat nelems" using assms by (simp add: gups_fits_def)
  then show ?thesis by (simp add: word_less_nat_alt unat_mod)
qed

lemma gups_loop_cell:
  fixes p x :: u64
  assumes "gups_fits sz cfg nelems T" "k < T"
  defines "a \<equiv> elt_address (thread_args cfg p nelems k) (x mod nelems)"
  shows "k * (8 * unat nelems) \<le> unat (a - p)" "unat (a - p) + 8 \<le> Suc k * (8 * unat nelems)"
    "Suc k * (8 * unat nelems) \<le> unat sz"
  using elt_offset [OF assms(1,2) mod_nelems [OF assms(1), of x]] unfolding a_def by simp_all

lemma gups_thread_reads:
  assumes "gups_fits sz cfg nelems T" "k < T" "gups_pc_ok p nelems k pc"
    and "\<And>a. a \<in> gups_region p nelems k \<Longrightarrow> n a = m a"
    and "gups_step p sz (thread_args cfg p nelems k) pc m = Inr (pc', m')"
  shows "\<exists>n'. gups_step p sz (thread_args cfg p nelems k) pc n = Inr (pc', n') \<and>
    (\<forall>a\<in>gups_region p nelems k. n' a = m' a)"
proof (cases pc)
  case (AtLoop i lfsr)
  let ?a = "elt_address (thread_args cfg p nelems k) (lfsr_fast lfsr mod nelems)"
  have "n x = m x" if "unat (x - ?a) < 8" for x
    using cell_in_region [OF gups_loop_cell [OF assms(1,2)] that] by (rule assms(4))
  then have "load64 n ?a = load64 m ?a" by (rule load64_cong)
  then show ?thesis
    using assms(4,5) AtLoop unfolding AtLoop gups_step_loop [OF assms(1,2)] by (auto simp: Let_def)
next
  case (AtWrite i lfsr a bs)
  then show ?thesis using assms(4,5) by (auto simp: gups_step_def write_bytes_def)
next
  case Finished
  then show ?thesis using assms(4,5) by (auto simp: gups_step_def)
qed

lemma gups_thread_writes:
  assumes "gups_fits sz cfg nelems T" "k < T" "gups_pc_ok p nelems k pc"
    and "gups_step p sz (thread_args cfg p nelems k) pc m = Inr (pc', m')"
    and "a \<notin> gups_region p nelems k"
  shows "m' a = m a"
proof (cases pc)
  case (AtLoop i lfsr)
  then show ?thesis
    using assms(4) unfolding AtLoop gups_step_loop [OF assms(1,2)] by (auto simp: Let_def)
next
  case (AtWrite i lfsr c bs)
  have ok: "length bs = 8" "k * (8 * unat nelems) \<le> unat (c - p)" "unat (c - p) + 8 \<le> Suc k * (8 * unat nelems)"
    using assms(3) AtWrite by (simp_all add: gups_pc_ok_def)
  have "\<not> unat (a - c) < 8"
    using cell_in_region [OF ok(2,3) gups_loop_cell(3) [OF assms(1,2)]] assms(5) by blast
  then show ?thesis using assms(4) AtWrite ok(1) by (auto simp: gups_step_def write_bytes_def)
next
  case Finished
  then show ?thesis using assms(4) by (auto simp: gups_step_def)
qed

lemma gups_thread_safe:
  assumes "gups_fits sz cfg nelems T" "k < T" "gups_pc_ok p nelems k pc"
  shows "\<exists>pc' m'. gups_step p sz (thread_args cfg p nelems k) pc m = Inr (pc', m') \<and>
    gups_pc_ok p nelems k pc'"
proof (cases pc)
  case (AtLoop i lfsr)
  show ?thesis
    using gups_loop_cell(1,2) [OF assms(1,2), of p "lfsr_fast lfsr"]
    unfolding AtLoop gups_step_loop [OF assms(1,2)] by (simp add: gups_pc_ok_def Let_def)
qed (simp_all add: gups_step_def gups_pc_ok_def)

lemma gups_regions_disjoint:
  assumes "a \<in> gups_region p nelems j" "a \<in> gups_region p nelems k"
  shows "j = k"
proof (rule ccontr)
  have no: False if "a \<in> gups_region p nelems i" "a \<in> gups_region p nelems l" "i < l" for i l
  proof -
    have "Suc i * (8 * unat nelems) \<le> l * (8 * unat nelems)" using that(3) by (intro mult_le_mono1) simp
    with that(1,2) show False unfolding gups_region_def by simp
  qed
  assume "j \<noteq> k"
  then show False using no assms by (metis linorder_neqE_nat)
qed

interpretation gups8: isolated_threads
  "\<lambda>k. gups_step p sz (thread_args cfg p nelems k)" "gups_region p nelems" "gups_pc_ok p nelems"
  "if gups_fits sz cfg nelems T then T else 0"
  for p sz cfg nelems T
proof (unfold_locales, goal_cases)
  case (1 j k a)
  then show ?case using gups_regions_disjoint by blast
next
  case (2 k s m)
  then show ?case using gups_thread_safe by (auto split: if_splits)
next
  case (3 k s m s' m' a)
  then show ?case using gups_thread_writes by (auto split: if_splits)
next
  case (4 k s n m s' m')
  then show ?case using gups_thread_reads [of sz cfg nelems T k p s n m s' m'] by (auto split: if_splits)
qed

section \<open>Runs\<close>

lemma alone_finished: "run_alone (gups_step p sz args) c Finished m = Inr (Finished, m)"
  by (induction c) (simp_all add: gups_step_def)

lemma alone_done:
  "run_alone (gups_step p sz args) (Suc c) (AtLoop i lfsr) m = Inr (Finished, m)"
  if "\<not> i < iters args"
  using that by (simp add: gups_step_def alone_finished)

lemma alone_two_steps:
  fixes p lfsr :: u64
  assumes "gups_fits sz cfg nelems T" "k < T" "i < updates cfg"
  defines "args \<equiv> thread_args cfg p nelems k"
  defines "a \<equiv> elt_address args (lfsr_fast lfsr mod nelems)"
  shows "run_alone (gups_step p sz args) (Suc (Suc c)) (AtLoop i lfsr) m =
    run_alone (gups_step p sz args) c (AtLoop (i + 1) (lfsr_fast lfsr)) (write_bytes m a (new_bytes args m a i))"
proof -
  have "elt_size args = 8" using assms(1) by (simp add: args_def thread_args_def gups_fits_def)
  then show ?thesis
    using assms(3) gups_step_loop [OF assms(1,2), of p i lfsr m]
    by (simp add: args_def [symmetric] a_def Let_def new_bytes_def) (simp add: gups_step_def)
qed

lemma gups_loop_unfold:
  fixes p lfsr :: u64
  assumes "gups_fits sz cfg nelems T" "k < T"
  defines "args \<equiv> thread_args cfg p nelems k"
  defines "a \<equiv> elt_address args (lfsr_fast lfsr mod nelems)"
  shows "do_gups_loop p sz args (Suc r) i lfsr m =
    do_gups_loop p sz args r (i + 1) (lfsr_fast lfsr) (write_bytes m a (new_bytes args m a i))"
proof -
  have "0 < unat nelems" using assms(1) by (simp add: gups_fits_def)
  then have "region_size args = nelems" "nelems \<noteq> 0" "elt_length args = 8"
    using assms(1) by (auto simp: args_def thread_args_def gups_fits_def elt_length_def)
  moreover have "mapped p sz a 8"
    using gups_loop_cell(2) [OF assms(1,2), of p "lfsr_fast lfsr"] gups_loop_cell(3) [OF assms(1,2)]
    unfolding mapped_def a_def args_def by linarith
  ultimately show ?thesis by (simp add: Let_def a_def)
qed

lemma alone_runs:
  fixes p :: u64
  assumes "gups_fits sz cfg nelems T" "k < T" "unat i + r = unat (updates cfg)"
  defines "args \<equiv> thread_args cfg p nelems k"
  shows "\<exists>m'. do_gups_loop p sz args r i lfsr m = Inr m' \<and>
    (\<forall>c>2 * r. run_alone (gups_step p sz args) c (AtLoop i lfsr) m = Inr (Finished, m')) \<and>
    (\<forall>c\<le>2 * r. \<forall>m''. run_alone (gups_step p sz args) c (AtLoop i lfsr) m \<noteq> Inr (Finished, m''))"
  using assms(3)
proof (induction r arbitrary: i lfsr m)
  case 0
  then have "\<not> i < iters args" by (simp add: args_def thread_args_def word_less_nat_alt)
  then have "run_alone (gups_step p sz args) c (AtLoop i lfsr) m = Inr (Finished, m)" if "0 < c" for c
    using that alone_done [of i args p sz "c - 1" lfsr m] by simp
  then show ?case by simp
next
  case (Suc r)
  let ?a = "elt_address args (lfsr_fast lfsr mod nelems)"
  let ?m = "write_bytes m ?a (new_bytes args m ?a i)"
  have i: "i < updates cfg" using Suc.prems by (simp add: word_less_nat_alt)
  have "unat (i + 1) = unat i + 1"
    using i by (rule unat_next)
  then have "unat (i + 1) + r = unat (updates cfg)" using Suc.prems by simp
  note IH = Suc.IH [OF this, of "lfsr_fast lfsr" ?m]
  note two = alone_two_steps [OF assms(1,2) i, where p = p and lfsr = lfsr and m = m, folded args_def]
  have first: "run_alone (gups_step p sz args) c (AtLoop i lfsr) m \<noteq> Inr (Finished, m'')"
    if "c \<le> 2 * Suc r" "\<And>c m''. c \<le> 2 * r \<Longrightarrow>
      run_alone (gups_step p sz args) c (AtLoop (i + 1) (lfsr_fast lfsr)) ?m \<noteq> Inr (Finished, m'')" for c m''
  proof -
    have "run_alone (gups_step p sz args) (Suc 0) (AtLoop i lfsr) m \<noteq> Inr (Finished, m'')"
      using gups_step_loop [OF assms(1,2), of p i lfsr m] i by (simp add: args_def Let_def)
    moreover have "c = 0 \<or> c = Suc 0 \<or> (\<exists>c'. c = Suc (Suc c') \<and> c' \<le> 2 * r)"
      using that(1) by presburger
    ultimately show ?thesis using that(2) by (auto simp: two simp del: run_alone.simps(2))
  qed
  have later: "\<exists>c'. c = Suc (Suc c') \<and> 2 * r < c'" if "2 * Suc r < c" for c
    using that by presburger
  from IH obtain m' where m': "do_gups_loop p sz args r (i + 1) (lfsr_fast lfsr) ?m = Inr m'"
    "\<forall>c>2 * r. run_alone (gups_step p sz args) c (AtLoop (i + 1) (lfsr_fast lfsr)) ?m = Inr (Finished, m')"
    "\<forall>c\<le>2 * r. \<forall>m''. run_alone (gups_step p sz args) c (AtLoop (i + 1) (lfsr_fast lfsr)) ?m \<noteq> Inr (Finished, m'')"
    by blast
  have "do_gups_loop p sz args (Suc r) i lfsr m = Inr m'"
    using gups_loop_unfold [OF assms(1,2), of p r i lfsr m] m'(1) by (simp only: args_def)
  moreover have "run_alone (gups_step p sz args) c (AtLoop i lfsr) m = Inr (Finished, m')" if "2 * Suc r < c" for c
    using later [OF that] m'(2) two by auto
  ultimately show ?case using first m'(3) by blast
qed

lemma count_list_same: "count_list (replicate n j) k = (if k = j then n else 0)"
  by (induction n) auto

lemma count_list_rounds:
  "distinct ks \<Longrightarrow> count_list (concat (map (replicate C) ks)) k = (if k \<in> set ks then C else 0)"
  by (induction ks) (auto simp: count_list_same)

lemma run_schedule_in_turn:
  assumes "gups_fits sz cfg nelems T" "set ks \<subseteq> {..<T}" "distinct ks"
    and "\<forall>k\<in>set ks. S k = AtLoop 0 (seed k)"
  shows "\<exists>S' m'. run_schedule (\<lambda>k. gups_step p sz (thread_args cfg p nelems k))
      (concat (map (replicate (Suc (2 * unat (updates cfg)))) ks)) S m = Inr (S', m') \<and>
    gups_seq p sz (thread_args cfg p nelems) seed ks m = Inr m'"
  using assms(2-4)
proof (induction ks arbitrary: S m)
  case Nil
  then show ?case by simp
next
  case (Cons k ks)
  let ?args = "thread_args cfg p nelems k"
  have k: "k < T" using Cons.prems by simp
  obtain m1 where m1: "do_gups p sz ?args (seed k) m = Inr m1"
    "run_alone (gups_step p sz ?args) (Suc (2 * unat (updates cfg))) (AtLoop 0 (seed k)) m = Inr (Finished, m1)"
    using alone_runs [OF assms(1) k, of 0 "unat (updates cfg)" p "seed k" m]
    by (auto simp: do_gups_def thread_args_def simp del: run_alone.simps)
  have "\<exists>S' m'. run_schedule (\<lambda>k. gups_step p sz (thread_args cfg p nelems k))
      (concat (map (replicate (Suc (2 * unat (updates cfg)))) ks)) (S(k := Finished)) m1 = Inr (S', m') \<and>
    gups_seq p sz (thread_args cfg p nelems) seed ks m1 = Inr m'"
    using Cons.prems by (intro Cons.IH) auto
  then show ?case
    using m1 Cons.prems(3) by (simp add: run_schedule_alone del: replicate.simps run_alone.simps)
qed

lemma gups_pass_eq:
  assumes fits: "gups_fits sz cfg nelems T" and ks: "set sched \<subseteq> {..<T}"
  shows "gups_pass p sz T (thread_args cfg p nelems) seed sched m =
    (if \<forall>k<T. 2 * unat (updates cfg) < count_list sched k
     then case gups_seq p sz (thread_args cfg p nelems) seed [0..<T] m of Inl f \<Rightarrow> Inl f | Inr m' \<Rightarrow> Inr (Some m')
     else Inr None)"
proof -
  let ?S = "\<lambda>k. AtLoop 0 (seed k)" and ?step = "\<lambda>k. gups_step p sz (thread_args cfg p nelems k)"
  let ?u = "unat (updates cfg)"
  let ?js = "concat (map (replicate (Suc (2 * ?u))) [0..<T])"
  have ok: "\<forall>k<(if gups_fits sz cfg nelems T then T else 0). gups_pc_ok p nelems k (?S k)"
    by (simp add: gups_pc_ok_def)
  have alone: "\<exists>m'. (\<forall>c>2 * ?u. run_alone (?step k) c (?S k) m = Inr (Finished, m')) \<and>
      (\<forall>c\<le>2 * ?u. \<forall>m''. run_alone (?step k) c (?S k) m \<noteq> Inr (Finished, m''))" if "k < T" for k
    using alone_runs [OF fits that, of 0 ?u p "seed k" m] by auto
  show ?thesis
  proof (cases "\<forall>k<T. 2 * ?u < count_list sched k")
    case True
    have "run_alone (?step k) (count_list sched k) (?S k) m = run_alone (?step k) (count_list ?js k) (?S k) m"
      if "k < (if gups_fits sz cfg nelems T then T else 0)" for k
      using alone [of k] True that fits by (auto simp: count_list_rounds simp del: replicate.simps run_alone.simps)
    moreover have "set ?js \<subseteq> {..<if gups_fits sz cfg nelems T then T else 0}"
      "set sched \<subseteq> {..<if gups_fits sz cfg nelems T then T else 0}"
      using ks fits by (auto simp del: replicate.simps)
    ultimately obtain S1 S2 m' where run: "run_schedule ?step sched ?S m = Inr (S1, m')"
      "run_schedule ?step ?js ?S m = Inr (S2, m')"
      using gups8.schedules_agree [OF ok, of sched ?js m] by blast
    moreover have "S1 k = Finished" if "k < T" for k
      using gups8.schedule_alone [OF ok, of sched m] ks fits that run(1) alone [OF that] True by fastforce
    ultimately show ?thesis
      using run_schedule_in_turn [OF fits, of "[0..<T]" ?S seed p m] True
      by (auto simp: gups_pass_def list_all_iff atLeast0LessThan simp del: replicate.simps)
  next
    case False
    then obtain k where k: "k < T" "count_list sched k \<le> 2 * ?u" by (auto simp: not_less)
    obtain S' m' mk where run: "run_schedule ?step sched ?S m = Inr (S', m')"
      "run_alone (?step k) (count_list sched k) (?S k) m = Inr (S' k, mk)"
      using gups8.schedule_alone [OF ok, of sched m] ks fits k(1) by fastforce
    have "S' k \<noteq> Finished" using alone [OF k(1)] k(2) run(2) by force
    then have "\<not> list_all (\<lambda>k. S' k = Finished) [0..<T]"
      using k(1) by (auto simp: list_all_iff intro!: bexI [of _ k])
    with run(1) False show ?thesis by (auto simp: gups_pass_def)
  qed
qed

lemma rounded_updates:
  assumes "256 \<le> U" "U < 2 ^ 63"
  shows "(of_nat U :: u64) - of_nat U mod 256 = of_nat (U - U mod 256)"
    "0 < (of_nat (U - U mod 256) :: u64)" "(of_nat (U - U mod 256) :: u64) mod 256 = 0"
proof -
  have U: "U < 2 ^ 64" "U - U mod 256 < 2 ^ 64" using assms by simp_all
  have "of_nat U mod of_nat 256 = (of_nat (U mod 256) :: u64)" by (rule of_nat_mod_u64 [OF U(1)]) simp
  then show "(of_nat U :: u64) - of_nat U mod 256 = of_nat (U - U mod 256)"
    by (simp add: of_nat_diff)
  have "256 \<le> U - U mod 256"
    using assms(1) by (metis div_greater_zero_iff minus_mod_eq_div_mult mult.commute mult_le_mono2 mult.right_neutral One_nat_def Suc_leI zero_less_numeral)
  then show "0 < (of_nat (U - U mod 256) :: u64)"
    by (simp only: word_less_nat_alt u64_of_nat [OF U(2)] unsigned_0)
  have "of_nat (U - U mod 256) mod of_nat 256 = (of_nat ((U - U mod 256) mod 256) :: u64)"
    by (rule of_nat_mod_u64 [OF U(2)]) simp
  moreover have "(U - U mod 256) mod 256 = 0" by (simp add: minus_mod_eq_div_mult)
  ultimately show "(of_nat (U - U mod 256) :: u64) mod 256 = 0" by simp
qed

lemma rounded_size:
  assumes "9 \<le> E" "E < 64"
  shows "push_bit E 1 = (of_nat (2 ^ E) :: u64)" "(of_nat (2 ^ E) :: u64) mod 256 = 0"
    "0 < (of_nat (2 ^ E) :: u64)"
proof -
  show "push_bit E 1 = (of_nat (2 ^ E) :: u64)" by (simp add: push_bit_eq_mult)
  obtain e where e: "E = 8 + e" using assms(1) by (metis le_Suc_ex add_leD1 eval_nat_numeral(3) Suc_leD)
  have "of_nat (2 ^ E) mod of_nat 256 = (of_nat (2 ^ E mod 256) :: u64)"
    by (rule of_nat_mod_u64 [OF pow_lt_64 [OF assms(2)]]) simp
  moreover have "(2 :: nat) ^ E mod 256 = 0" unfolding e by (simp add: power_add)
  ultimately show "(of_nat (2 ^ E) :: u64) mod 256 = 0" by simp
  show "0 < (of_nat (2 ^ E) :: u64)"
    by (simp only: word_less_nat_alt u64_of_nat [OF pow_lt_64 [OF assms(2)]] unsigned_0) simp
qed

lemma gups_config_of_command:
  assumes "T \<le> 64" "256 \<le> U" "U < 2 ^ 63" "9 \<le> E" "E < 64"
  shows "gups_config_of [prog, decimal T, decimal U, decimal E, decimal 8] = Inr (command_config T U E)"
proof -
  have a: "atoi (decimal T) = int T" "atol (decimal U) = int U" "atoi (decimal E) = int E"
    "atoi (decimal 8) = 8"
    using assms by (simp_all add: cnum_simps)
  have e: "unat (of_nat E :: u64) = E" using assms(5) by (intro u64_of_nat) simp
  have "8 < (of_nat E :: u64)" using assms(4) by (simp only: word_less_nat_alt e) simp
  then show ?thesis
    using assms(1,5) rounded_updates [OF assms(2,3)] rounded_size [OF assms(4,5)]
    by (simp add: gups_config_of_def a e command_config_def Let_def)
qed

lemma command_fits:
  assumes "0 < T" "T \<le> 64" "9 \<le> E" "E < 64"
  shows "gups_fits (of_nat (2 ^ E)) (command_config T U E) (command_elems T E) T"
    and "(region (command_config T U E) div of_int (threads (command_config T U E))) div
      data_size (command_config T U E) = command_elems T E"
proof -
  let ?n = "(2 :: nat) ^ E div T div 8"
  have E: "(2 :: nat) ^ E < 2 ^ 64" by (rule pow_lt_64 [OF assms(4)])
  have n: "?n \<le> 2 ^ E" by (metis div_le_dividend le_trans)
  have "(2 :: nat) ^ 9 \<le> 2 ^ E" using assms(3) by (intro power_increasing) simp_all
  then have big: "64 * 8 \<le> (2 :: nat) ^ E" by simp
  have "T * 8 \<le> 64 * 8" using assms(2) by simp
  then have "T * 8 \<le> 2 ^ E" using big by linarith
  then have "0 < ?n" using assms(1) by (simp add: div_mult2_eq [symmetric] div_greater_zero_iff)
  moreover have "T * (8 * ?n) \<le> 2 ^ E"
    using assms(1) by (simp add: div_mult2_eq [symmetric] mult.assoc [symmetric] times_div_less_eq_dividend)
  moreover have "unat (command_elems T E) = ?n"
    unfolding command_elems_def using n E by (intro u64_of_nat) linarith
  ultimately show "gups_fits (of_nat (2 ^ E)) (command_config T U E) (command_elems T E) T"
    unfolding gups_fits_def u64_of_nat [OF E] by (simp add: command_config_def)
  have T: "T < 2 ^ 64" using assms(2) by simp
  have "2 ^ E div T < (2 :: nat) ^ 64" using E by (meson div_le_dividend le_less_trans)
  moreover have "(8 :: nat) < 2 ^ 64" by simp
  ultimately have "of_nat (2 ^ E) div of_nat T div of_nat 8 = (of_nat ?n :: u64)"
    unfolding of_nat_div_u64 [OF E T] by (rule of_nat_div_u64)
  then show "(region (command_config T U E) div of_int (threads (command_config T U E))) div
      data_size (command_config T U E) = command_elems T E"
    by (simp add: command_config_def command_elems_def)
qed

section \<open>Properties\<close>

lemma gups_main_command:
  assumes "0 < T" and "T \<le> 64" and "256 \<le> U" and "U < 2 ^ 63" and "9 \<le> E" and "E < 64"
    and "set sched1 \<subseteq> {..<T}" and "\<forall>k<T. 2 * (U - U mod 256) < count_list sched1 k"
    and "set sched2 \<subseteq> {..<T}" and "\<forall>k<T. 2 * (U - U mod 256) < count_list sched2 k"
  shows "\<exists>m1 m2.
    gups_seq p (of_nat (2 ^ E)) (thread_args (command_config T U E) p (command_elems T E)) seed1 [0..<T] m = Inr m1 \<and>
    gups_seq p (of_nat (2 ^ E)) (thread_args (command_config T U E) p (command_elems T E)) seed2 [0..<T] m1 = Inr m2 \<and>
    gups_main [prog, decimal T, decimal U, decimal E, decimal 8] (Some p) (seed1, sched1) (seed2, sched2) m =
      Inr (Some m2)"
proof -
  let ?cfg = "command_config T U E" and ?n = "command_elems T E" and ?sz = "of_nat (2 ^ E) :: u64"
  note fits = command_fits(1) [OF assms(1,2,5,6), of U]
  have "U - U mod 256 < 2 ^ 64" using assms(4) by simp
  then have upd: "unat (updates ?cfg) = U - U mod 256"
    unfolding command_config_def gups_config.select_convs by (rule u64_of_nat)
  have seq: "\<exists>m'. gups_seq p ?sz (thread_args ?cfg p ?n) seed [0..<T] m = Inr m'" for seed m
    using run_schedule_in_turn [OF fits, of "[0..<T]" "\<lambda>k. AtLoop 0 (seed k)" seed p m]
    by (auto simp: atLeast0LessThan)
  obtain m1 where m1: "gups_seq p ?sz (thread_args ?cfg p ?n) seed1 [0..<T] m = Inr m1" using seq by blast
  obtain m2 where m2: "gups_seq p ?sz (thread_args ?cfg p ?n) seed2 [0..<T] m1 = Inr m2" using seq by blast
  have "gups_pass p ?sz T (thread_args ?cfg p ?n) seed1 sched1 m = Inr (Some m1)"
    "gups_pass p ?sz T (thread_args ?cfg p ?n) seed2 sched2 m1 = Inr (Some m2)"
    using gups_pass_eq [OF fits assms(7)] gups_pass_eq [OF fits assms(9)] assms(8,10) m1 m2
    by (simp_all add: upd)
  moreover have "region ?cfg = ?sz" "threads ?cfg = int T" by (simp_all add: command_config_def)
  ultimately show ?thesis
    using m1 m2 assms(1) command_fits(2) [OF assms(1,2,5,6), of U]
    by (simp add: gups_main_def gups_config_of_command [OF assms(2-6)] Let_def)
qed

text \<open>
  C5: on a command line with 1 to 64 threads, at least 256 updates, a region of at least 512
  bytes and elements of 8 bytes, both passes end without a fault whatever the schedules,
  as soon as every thread has made all its steps, and leave the memory that the threads make
  when they run one after the other: no update is lost to another thread.
\<close>

theorem gups_main_in_turn:
  assumes "0 < T" and "T \<le> 64" and "256 \<le> U" and "U < 2 ^ 63" and "9 \<le> E" and "E < 64"
    and "set sched1 \<subseteq> {..<T}" and "\<forall>k<T. 2 * (U - U mod 256) < count_list sched1 k"
    and "set sched2 \<subseteq> {..<T}" and "\<forall>k<T. 2 * (U - U mod 256) < count_list sched2 k"
  shows "\<exists>m1 m2.
    gups_seq p (of_nat (2 ^ E)) (thread_args (command_config T U E) p (command_elems T E)) seed1 [0..<T] m = Inr m1 \<and>
    gups_seq p (of_nat (2 ^ E)) (thread_args (command_config T U E) p (command_elems T E)) seed2 [0..<T] m1 = Inr m2 \<and>
    gups_main [prog, decimal T, decimal U, decimal E, decimal 8] (Some p) (seed1, sched1) (seed2, sched2) m =
      Inr (Some m2)"
  using gups_main_command [OF assms] .

theorem gups_main_in_turn_witness:
  "\<exists>m2. gups_main [''gups'', decimal 2, decimal 300, decimal 9, decimal 8] (Some 0x7f5707200000)
     (\<lambda>k. of_nat k + 1, concat (replicate 513 [0, 1])) (\<lambda>k. of_nat k + 1, replicate 600 1 @ replicate 513 0)
     (\<lambda>_. 0) = Inr (Some m2)"
proof -
  have rep: "count_list (concat (replicate n [0, 1 :: nat])) k = (if k < 2 then n else 0)" for n k
    by (induction n) auto
  have "set (concat (replicate 513 [0, 1 :: nat])) \<subseteq> {..<2}"
    "set (replicate 600 1 @ replicate 513 0) \<subseteq> {..<2 :: nat}" by auto
  moreover have "\<forall>k<2. 2 * (300 - 300 mod 256) < count_list (concat (replicate 513 [0, 1 :: nat])) k"
    unfolding rep by simp
  moreover have "\<forall>k<2. 2 * (300 - 300 mod 256) < count_list (replicate 600 1 @ replicate 513 0) (k :: nat)"
    by (auto simp: count_list_same less_2_cases_iff)
  ultimately show ?thesis
    using gups_main_in_turn [of 2 300 9 "concat (replicate 513 [0, 1])" "replicate 600 1 @ replicate 513 0"
      "0x7f5707200000" "\<lambda>k. of_nat k + 1" "\<lambda>_. 0" "\<lambda>k. of_nat k + 1" "''gups''"]
    by auto
qed

text \<open>
  \<^verbatim>\<open>lfsr_fast\<close> is a permutation of the 64-bit words that keeps zero fixed: a non-zero seed
  never gives a zero, and no two states have the same successor.
\<close>

theorem lfsr_fast_bij: "bij lfsr_fast \<and> (\<forall>x. lfsr_fast x = 0 \<longleftrightarrow> x = 0)"
proof -
  have "bij lfsr_fast" using lfsr_fast_inj by (simp add: bij_def finite_UNIV_inj_surj)
  moreover have "lfsr_fast x = 0 \<longleftrightarrow> x = 0" for x
    using lfsr_fast_inj lfsr_fast_0 by (metis injD)
  ultimately show ?thesis by blast
qed



text \<open>
  \<^verbatim>\<open>elapsed\<close> returns the exact difference of two times, in normal form.
\<close>

theorem elapsed_exact:
  assumes "0 \<le> snd s" and "snd s < 1000000" and "0 \<le> snd e" and "snd e < 1000000"
  shows "fst (elapsed s e) * 1000000 + snd (elapsed s e) =
      (fst e * 1000000 + snd e) - (fst s * 1000000 + snd s) \<and>
    0 \<le> snd (elapsed s e) \<and> snd (elapsed s e) < 1000000"
  using assms by (simp add: elapsed_def Let_def algebra_simps)

theorem elapsed_exact_witness: "elapsed (5, 900000) (7, 100000) = (1, 200000)"
  using elapsed_exact [of "(5, 900000)" "(7, 100000)"] by (simp add: elapsed_def)

end
