(* ===== verification/Gups_Hotset.thy ===== *)
theory Gups_Hotset
  imports Gups
begin

text \<open>
  The variant of the benchmark with a hot set, \<^verbatim>\<open>bmks/gups/gups-hotset-move.c\<close>.  Nine updates in
  ten go to a hot part at the start of the thread's region; when the timer thread sets
  \<^verbatim>\<open>move_hotset1\<close>, the first quarter of the hot part moves behind it.  What a worker thread sees
  of the timer's flags at its iteration \<open>i\<close> is an argument (\<open>mv i\<close> and \<open>st i\<close>), as any
  interleaving with the timer determines such values.
\<close>

section \<open>The worker threads\<close>

record hot_args =
  worker :: gups_args
  hot_start :: u64
  hotsize :: u64

text \<open>
  The element of an iteration, and whether \<^verbatim>\<open>before_accesses\<close> counts it.
\<close>

definition hot_pick :: "hot_args \<Rightarrow> bool \<Rightarrow> u64 \<Rightarrow> fault + (u64 \<times> bool)" where
  "hot_pick args mv lfsr =
     (let hot_num = lfsr_fast lfsr mod 100 in
      if hot_num < 90 then
        (let lfsr' = lfsr_fast lfsr in
         if hotsize args = 0 then Inl DivByZero
         else
           (let index1 = hot_start args + lfsr' mod hotsize args in
            if mv then Inr (if index1 < hotsize args div 4 then index1 + hotsize args else index1, False)
            else Inr (index1, index1 < hotsize args div 4)))
      else
        (let lfsr' = lfsr_fast lfsr in
         if region_size (worker args) = 0 then Inl DivByZero
         else Inr (lfsr' mod region_size (worker args), False)))"

text \<open>
  A thread at the head of its loop, about to write back, or finished; \<open>b\<close> is \<^verbatim>\<open>before_accesses\<close>,
  \<open>c\<close> is the thread's cell of \<^verbatim>\<open>thread_gups\<close>.
\<close>

datatype hot_thread =
    HotLoop u64 u64 u64 u64
  | HotWrite u64 u64 u64 u64 u64 "u8 list"
  | HotDone u64 u64

definition hot_step ::
  "u64 \<Rightarrow> u64 \<Rightarrow> hot_args \<Rightarrow> (u64 \<Rightarrow> bool) \<Rightarrow> (u64 \<Rightarrow> bool) \<Rightarrow> hot_thread \<Rightarrow> byte_mem \<Rightarrow>
   fault + (hot_thread \<times> byte_mem)" where
  "hot_step p sz args mv st s m =
     (case s of
        HotLoop i lfsr b c \<Rightarrow>
          if i < iters (worker args) then
            (case hot_pick args (mv i) lfsr of
               Inl f \<Rightarrow> Inl f
             | Inr (index, before) \<Rightarrow>
                 (let a = elt_address (worker args) index in
                  if \<not> mapped p sz a (elt_length (worker args)) then Inl Segfault
                  else Inr (HotWrite i (lfsr_fast lfsr) (if before then b + 1 else b) c a
                              (new_bytes (worker args) m a i), m)))
          else Inr (HotDone b c, m)
      | HotWrite i lfsr b c a bs \<Rightarrow>
          (let c' = (if i mod 10000 = 0 then c + 10000 else c)
           in Inr (if st i then HotDone b c' else HotLoop (i + 1) lfsr b c', write_bytes m a bs))
      | HotDone b c \<Rightarrow> Inr (HotDone b c, m))"

section \<open>The timer and the printer\<close>

record hot_timer =
  tic :: u64
  printed1 :: bool
  move_hotset1 :: bool
  stop :: bool

definition timer_start :: hot_timer where
  "timer_start = \<lparr>tic = -1, printed1 = False, move_hotset1 = False, stop = False\<rparr>"

text \<open>One second of \<^verbatim>\<open>timing_thread\<close>; the second component tells whether the message is printed.\<close>

definition timer_tick :: "bool \<Rightarrow> hot_timer \<Rightarrow> hot_timer \<times> bool" where
  "timer_tick do_move t =
     (let t1 = t\<lparr>tic := tic t + 1\<rparr>;
          now = (150 \<le> tic t1 \<and> tic t1 < 300 \<and> \<not> printed1 t1 \<and> do_move);
          t2 = (if now then t1\<lparr>move_hotset1 := True, printed1 := True\<rparr> else t1);
          t3 = (if 600 \<le> tic t2 then t2\<lparr>stop := True\<rparr> else t2)
      in (t3, now))"

fun timer_run :: "bool \<Rightarrow> nat \<Rightarrow> hot_timer \<times> nat" where
  "timer_run do_move 0 = (timer_start, 0)"
| "timer_run do_move (Suc n) =
     (let (t, msgs) = timer_run do_move n;
          (t', now) = timer_tick do_move t
      in (t', if now then Suc msgs else msgs))"

text \<open>\<^verbatim>\<open>abs\<close> of a 64-bit difference, which C first converts to \<^verbatim>\<open>int\<close>.\<close>

definition c_abs :: "u64 \<Rightarrow> u64" where
  "c_abs d = (let k = to_int32 (uint d) in of_int (if k < 0 then to_int32 (- k) else k))"

text \<open>
  One second of \<^verbatim>\<open>print_instantaneous_gups\<close>: the cells of \<^verbatim>\<open>thread_gups\<close>, then the state
  \<^verbatim>\<open>(tot_last_second_gups, tot_updates)\<close>.
\<close>

definition print_tick :: "u64 list \<Rightarrow> u64 \<times> u64 \<Rightarrow> u64 \<times> u64" where
  "print_tick thread_gups s =
     (let tot_gups = foldl (+) 0 thread_gups
      in (tot_gups, snd s + c_abs (tot_gups - fst s)))"

section \<open>The program\<close>

record hot_config =
  hot_base :: gups_config
  tot_hot_size :: u64
  do_move_hotset :: bool

text \<open>\<open>atof_int s\<close> is \<^verbatim>\<open>(int)atof(s)\<close>.\<close>

definition hot_config_of :: "(string \<Rightarrow> int) \<Rightarrow> string list \<Rightarrow> fault + hot_config" where
  "hot_config_of atof_int argv =
     (if length argv \<noteq> 7 then Inl (ExitWith 0)
      else
        (let threads = atoi (argv ! 1) in
         if threads > 64 then Inl AssertFail
         else
           (let updates = of_int (atol (argv ! 2)) :: u64;
                updates = updates - updates mod 256;
                expt = of_int (atoi (argv ! 3)) :: u64
            in if \<not> expt > 8 then Inl AssertFail
               else if \<not> (updates > 0 \<and> updates mod 256 = 0) then Inl AssertFail
               else if \<not> unat expt < 64 then Inl UndefinedShift
               else
                 (let sz = push_bit (unat expt) 1;
                      sz = sz - sz mod 256;
                      elt_size = of_int (atoi (argv ! 4)) :: u64;
                      log_hot_size = atof_int (argv ! 5)
                  in if \<not> (sz > 0 \<and> sz mod 256 = 0) then Inl AssertFail
                     else if \<not> (0 \<le> log_hot_size \<and> log_hot_size < 64) then Inl UndefinedShift
                     else if elt_size = 0 then Inl DivByZero
                     else Inr \<lparr>hot_base = \<lparr>threads = threads, updates = updates, region = sz,
                                 data_size = elt_size\<rparr>,
                               tot_hot_size = push_bit (nat log_hot_size) 1,
                               do_move_hotset = (atoi (argv ! 6) \<noteq> 0)\<rparr>))))"

text \<open>The arguments of a thread at its creation, when \<^verbatim>\<open>main\<close> has doubled \<^verbatim>\<open>iters\<close>.\<close>

definition hot_thread_args :: "gups_config \<Rightarrow> u64 \<Rightarrow> u64 \<Rightarrow> u64 \<Rightarrow> nat \<Rightarrow> hot_args" where
  "hot_thread_args cfg p nelems hot i =
     \<lparr>worker = (thread_args cfg p nelems i)\<lparr>iters := updates cfg * 2\<rparr>, hot_start = 0, hotsize = hot\<rparr>"

text \<open>
  \<^verbatim>\<open>main\<close> up to the end of the joins, for a schedule of the worker threads: the states of the
  threads and the memory.
\<close>

definition hot_main ::
  "(string \<Rightarrow> int) \<Rightarrow> string list \<Rightarrow> u64 option \<Rightarrow> (nat \<Rightarrow> u64) \<Rightarrow> (nat \<Rightarrow> u64 \<Rightarrow> bool) \<Rightarrow>
   (nat \<Rightarrow> u64 \<Rightarrow> bool) \<Rightarrow> nat list \<Rightarrow> byte_mem \<Rightarrow> fault + ((nat \<Rightarrow> hot_thread) \<times> byte_mem)" where
  "hot_main atof_int argv p seed mv st sched m =
     (case hot_config_of atof_int argv of
        Inl f \<Rightarrow> Inl f
      | Inr hcfg \<Rightarrow>
          (case p of
             None \<Rightarrow> Inl AssertFail
           | Some p \<Rightarrow>
               (let cfg = hot_base hcfg in
                if threads cfg = 0 then Inl DivByZero
                else
                  (let nelems = (region cfg div of_int (threads cfg)) div data_size cfg;
                       hot = (tot_hot_size hcfg div of_int (threads cfg)) div data_size cfg
                   in run_schedule
                        (\<lambda>k. hot_step p (region cfg) (hot_thread_args cfg p nelems hot k) (mv k) (st k))
                        sched (\<lambda>k. HotLoop 0 (seed k) 0 0) m))))"

text \<open>States of a thread that stays in its region and whose counter is right.\<close>

definition hot_count :: "nat \<Rightarrow> nat" where
  "hot_count n = 10000 * ((n + 9999) div 10000)"

definition hot_thread_ok :: "u64 \<Rightarrow> u64 \<Rightarrow> u64 \<Rightarrow> nat \<Rightarrow> hot_thread \<Rightarrow> bool" where
  "hot_thread_ok p nelems n k s =
     (case s of
        HotLoop i lfsr b c \<Rightarrow> i \<le> n \<and> b \<le> i \<and> c = of_nat (hot_count (unat i))
      | HotWrite i lfsr b c a bs \<Rightarrow>
          i < n \<and> b \<le> i + 1 \<and> c = of_nat (hot_count (unat i)) \<and> length bs = 8 \<and>
          k * (8 * unat nelems) \<le> unat (a - p) \<and> unat (a - p) + 8 \<le> Suc k * (8 * unat nelems)
      | HotDone b c \<Rightarrow> \<exists>d. d \<le> n \<and> b \<le> d \<and> c = of_nat (hot_count (unat d)))"

definition hot_fits :: "u64 \<Rightarrow> gups_config \<Rightarrow> u64 \<Rightarrow> u64 \<Rightarrow> nat \<Rightarrow> bool" where
  "hot_fits sz cfg nelems hot T \<longleftrightarrow>
     gups_fits sz cfg nelems T \<and> 0 < unat hot \<and> unat hot + unat hot div 4 \<le> unat nelems"

definition hot_elems :: "nat \<Rightarrow> nat \<Rightarrow> u64" where
  "hot_elems T H = of_nat (2 ^ H div T div 8)"

section \<open>The threads keep to their regions\<close>

lemma hot_pick_in_region:
  assumes "hot_fits sz cfg nelems hot T"
  shows "\<exists>index before. hot_pick (hot_thread_args cfg p nelems hot k) mv lfsr = Inr (index, before) \<and>
    index < nelems"
proof -
  let ?l = "lfsr_fast lfsr"
  have hot: "0 < unat hot" "unat hot + unat hot div 4 \<le> unat nelems" and fits: "gups_fits sz cfg nelems T"
    using assms by (simp_all add: hot_fits_def)
  have l: "?l mod hot < hot" using hot(1) by (simp add: word_less_nat_alt unat_mod)
  have ln: "?l mod hot < nelems"
    using l hot(2) by (simp add: word_less_nat_alt)
  have moved: "?l mod hot + hot < nelems" if "?l mod hot < hot div 4"
  proof -
    have "unat (?l mod hot) < unat hot div 4" using that by (simp add: word_less_nat_alt unat_div)
    then have "unat (?l mod hot) + unat hot < unat nelems" using hot(2) by linarith
    moreover have "unat (?l mod hot + hot) \<le> unat (?l mod hot) + unat hot" by (rule unat_add_le)
    ultimately show ?thesis unfolding word_less_nat_alt by linarith
  qed
  have "hot \<noteq> 0" "nelems \<noteq> 0" using hot by auto
  then show ?thesis
    using ln moved mod_nelems [OF fits, of ?l]
    by (auto simp: hot_pick_def hot_thread_args_def thread_args_def Let_def)
qed

lemma hot_worker_address:
  "elt_address (worker (hot_thread_args cfg p nelems hot k)) index = elt_address (thread_args cfg p nelems k) index"
  by (simp add: hot_thread_args_def thread_args_def elt_address_def)

lemma hot_step_loop:
  assumes "hot_fits sz cfg nelems hot T" "k < T" "i < updates cfg * 2"
  shows "\<exists>index before. index < nelems \<and>
    (\<forall>m. hot_step p sz (hot_thread_args cfg p nelems hot k) mv st (HotLoop i lfsr b c) m =
      Inr (HotWrite i (lfsr_fast lfsr) (if before then b + 1 else b) c
             (elt_address (thread_args cfg p nelems k) index)
             (le_bytes 8 (load64 m (elt_address (thread_args cfg p nelems k) index) + i)), m))"
proof -
  let ?args = "hot_thread_args cfg p nelems hot k"
  obtain index before where pick: "hot_pick ?args (mv i) lfsr = Inr (index, before)" "index < nelems"
    using hot_pick_in_region [OF assms(1)] by blast
  have fits: "gups_fits sz cfg nelems T" using assms(1) by (simp add: hot_fits_def)
  have "elt_size (worker ?args) = 8" "iters (worker ?args) = updates cfg * 2" "elt_length (worker ?args) = 8"
    using fits by (simp_all add: hot_thread_args_def thread_args_def gups_fits_def elt_length_def)
  moreover have "mapped p sz (elt_address (thread_args cfg p nelems k) index) 8"
    using elt_offset [OF fits assms(2) pick(2)] unfolding mapped_def by simp
  ultimately show ?thesis
    using pick assms(3) by (auto simp: hot_step_def hot_worker_address new_bytes_def Let_def)
qed

lemma hot_step_done:
  assumes "\<not> i < updates cfg * 2"
  shows "hot_step p sz (hot_thread_args cfg p nelems hot k) mv st (HotLoop i lfsr b c) m = Inr (HotDone b c, m)"
  using assms by (simp add: hot_step_def hot_thread_args_def)

lemma hot_count_next: "hot_count (Suc n) = (if n mod 10000 = 0 then hot_count n + 10000 else hot_count n)"
proof -
  define q r where "q = n div 10000" and "r = n mod 10000"
  have n: "n = 10000 * q + r" "r < 10000" by (simp_all add: q_def r_def)
  have "(10000 * q + t + 9999) div 10000 = q + (if t = 0 then 0 else 1)" if "t \<le> 10000" for t
  proof (cases "t = 0")
    case False
    then have "(10000 * q + t + 9999) div 10000 = Suc q" using that
      by (intro div_nat_eqI) simp_all
    then show ?thesis using False by simp
  qed simp
  from this [of r] this [of "Suc r"] n(2) show ?thesis
    unfolding hot_count_def n(1) by simp
qed

lemma hot_step_ok:
  assumes "hot_fits sz cfg nelems hot T" "k < T" "hot_thread_ok p nelems (updates cfg * 2) k s"
  shows "\<exists>s' m'. hot_step p sz (hot_thread_args cfg p nelems hot k) mv st s m = Inr (s', m') \<and>
    hot_thread_ok p nelems (updates cfg * 2) k s'"
proof (cases s)
  case (HotLoop i lfsr b c)
  show ?thesis
  proof (cases "i < updates cfg * 2")
    case True
    have fits: "gups_fits sz cfg nelems T" using assms(1) by (simp add: hot_fits_def)
    obtain index before where step: "index < nelems"
      "hot_step p sz (hot_thread_args cfg p nelems hot k) mv st (HotLoop i lfsr b c) m =
        Inr (HotWrite i (lfsr_fast lfsr) (if before then b + 1 else b) c
             (elt_address (thread_args cfg p nelems k) index)
             (le_bytes 8 (load64 m (elt_address (thread_args cfg p nelems k) index) + i)), m)"
      using hot_step_loop [OF assms(1,2) True] by blast
    have "b \<le> i" "c = of_nat (hot_count (unat i))" using assms(3) HotLoop by (simp_all add: hot_thread_ok_def)
    moreover have "unat (i + 1) = unat i + 1" using True by (rule unat_next)
    moreover have "unat (b + 1) \<le> unat b + 1" using unat_add_le [of b 1] by simp
    ultimately have "(if before then b + 1 else b) \<le> i + 1" by (auto simp: word_le_nat_alt)
    then show ?thesis
      using elt_offset [OF fits assms(2) step(1)] True step(2) HotLoop \<open>c = _\<close>
      by (simp add: hot_thread_ok_def)
  next
    case False
    then show ?thesis using assms(3) HotLoop hot_step_done [OF False] by (auto simp: hot_thread_ok_def)
  qed
next
  case (HotWrite i lfsr b c a bs)
  have ok: "i < updates cfg * 2" "b \<le> i + 1" "c = of_nat (hot_count (unat i))"
    using assms(3) HotWrite by (simp_all add: hot_thread_ok_def)
  have n: "unat (i + 1) = Suc (unat i)" using unat_next [OF ok(1)] by simp
  have "i mod 10000 = 0 \<longleftrightarrow> unat i mod 10000 = 0"
    by (simp add: word_unat_eq_iff unat_mod)
  then have "(if i mod 10000 = 0 then c + 10000 else c) = of_nat (hot_count (unat (i + 1)))"
    unfolding n hot_count_next ok(3) by simp
  moreover have "i + 1 \<le> updates cfg * 2" using ok(1) n by (simp add: word_le_nat_alt word_less_nat_alt)
  ultimately show ?thesis
    using HotWrite ok(2) by (auto simp: hot_step_def hot_thread_ok_def Let_def)
next
  case (HotDone b c)
  then show ?thesis using assms(3) by (simp add: hot_step_def)
qed

lemma hot_thread_cases:
  assumes "hot_fits sz cfg nelems hot T" "k < T" "hot_thread_ok p nelems (updates cfg * 2) k s"
    and "hot_step p sz (hot_thread_args cfg p nelems hot k) mv st s m = Inr (s', m')"
  shows "m' = m \<or> (\<exists>a bs. m' = write_bytes m a bs \<and> length bs = 8 \<and>
      (\<forall>x. unat (x - a) < 8 \<longrightarrow> x \<in> gups_region p nelems k))"
proof (cases s)
  case (HotLoop i lfsr b c)
  then show ?thesis
    using assms(4) by (auto simp: hot_step_def Let_def split: sum.splits if_splits)
next
  case (HotWrite i lfsr b c a bs)
  have ok: "length bs = 8" "k * (8 * unat nelems) \<le> unat (a - p)" "unat (a - p) + 8 \<le> Suc k * (8 * unat nelems)"
    using assms(3) HotWrite by (simp_all add: hot_thread_ok_def)
  have fits: "gups_fits sz cfg nelems T" using assms(1) by (simp add: hot_fits_def)
  show ?thesis
    using assms(4) HotWrite ok(1) cell_in_region [OF ok(2,3) gups_loop_cell(3) [OF fits assms(2)]]
    by (auto simp: hot_step_def Let_def)
next
  case (HotDone b c)
  then show ?thesis using assms(4) by (simp add: hot_step_def)
qed

lemma hot_thread_writes:
  assumes "hot_fits sz cfg nelems hot T" "k < T" "hot_thread_ok p nelems (updates cfg * 2) k s"
    and "hot_step p sz (hot_thread_args cfg p nelems hot k) mv st s m = Inr (s', m')"
    and "a \<notin> gups_region p nelems k"
  shows "m' a = m a"
  using hot_thread_cases [OF assms(1-4)] assms(5) by (auto simp: write_bytes_def)

lemma hot_thread_reads:
  assumes "hot_fits sz cfg nelems hot T" "k < T" "hot_thread_ok p nelems (updates cfg * 2) k s"
    and "\<And>a. a \<in> gups_region p nelems k \<Longrightarrow> n a = m a"
    and "hot_step p sz (hot_thread_args cfg p nelems hot k) mv st s m = Inr (s', m')"
  shows "\<exists>n'. hot_step p sz (hot_thread_args cfg p nelems hot k) mv st s n = Inr (s', n') \<and>
    (\<forall>a\<in>gups_region p nelems k. n' a = m' a)"
proof (cases s)
  case (HotLoop i lfsr b c)
  show ?thesis
  proof (cases "i < updates cfg * 2")
    case True
    have fits: "gups_fits sz cfg nelems T" using assms(1) by (simp add: hot_fits_def)
    obtain index before where step: "index < nelems"
      "\<forall>m. hot_step p sz (hot_thread_args cfg p nelems hot k) mv st (HotLoop i lfsr b c) m =
        Inr (HotWrite i (lfsr_fast lfsr) (if before then b + 1 else b) c
             (elt_address (thread_args cfg p nelems k) index)
             (le_bytes 8 (load64 m (elt_address (thread_args cfg p nelems k) index) + i)), m)"
      using hot_step_loop [OF assms(1,2) True] by blast
    let ?a = "elt_address (thread_args cfg p nelems k) index"
    have cell: "k * (8 * unat nelems) \<le> unat (?a - p)" "unat (?a - p) + 8 \<le> Suc k * (8 * unat nelems)"
      using elt_offset [OF fits assms(2) step(1)] by simp_all
    have "n x = m x" if "unat (x - ?a) < 8" for x
      using cell_in_region [OF cell elt_offset(3) [OF fits assms(2) step(1)] that] by (rule assms(4))
    then have "load64 n ?a = load64 m ?a" by (rule load64_cong)
    then show ?thesis using assms(4,5) step(2) HotLoop by auto
  next
    case False
    then show ?thesis using assms(4,5) HotLoop hot_step_done [OF False] by auto
  qed
next
  case (HotWrite i lfsr b c a bs)
  then show ?thesis using assms(4,5) by (auto simp: hot_step_def write_bytes_def Let_def)
next
  case (HotDone b c)
  then show ?thesis using assms(4,5) by (auto simp: hot_step_def)
qed

interpretation hot8: isolated_threads
  "\<lambda>k. hot_step p sz (hot_thread_args cfg p nelems hot k) (mv k) (st k)" "gups_region p nelems"
  "hot_thread_ok p nelems (updates cfg * 2)" "if hot_fits sz cfg nelems hot T then T else 0"
  for p sz cfg nelems hot mv st T
proof (unfold_locales, goal_cases)
  case (1 j k a)
  then show ?case using gups_regions_disjoint by blast
next
  case (2 k s m)
  then show ?case using hot_step_ok by (auto split: if_splits)
next
  case (3 k s m s' m' a)
  then show ?case using hot_thread_writes by (auto split: if_splits)
next
  case (4 k s n m s' m')
  then show ?case
    using hot_thread_reads [of sz cfg nelems hot T k p s n m "mv k" "st k" s' m'] by (auto split: if_splits)
qed

section \<open>The timer\<close>

lemma timer_run_eq:
  assumes "n < 2 ^ 63"
  shows "timer_run do_move n =
    (\<lparr>tic = of_nat n - 1, printed1 = (do_move \<and> 150 < n), move_hotset1 = (do_move \<and> 150 < n), stop = (600 < n)\<rparr>,
     if do_move \<and> 150 < n then 1 else 0)"
  using assms
proof (induction n)
  case 0
  then show ?case by (simp add: timer_start_def)
next
  case (Suc n)
  have n: "n < 2 ^ 64" "unat (of_nat n :: u64) = n" using Suc.prems by (auto intro: u64_of_nat)
  have cmp: "150 \<le> (of_nat n :: u64) \<longleftrightarrow> 150 \<le> n" "(of_nat n :: u64) < 300 \<longleftrightarrow> n < 300"
    "600 \<le> (of_nat n :: u64) \<longleftrightarrow> 600 \<le> n"
    unfolding word_le_nat_alt word_less_nat_alt n(2) by simp_all
  have "n < 2 ^ 63" using Suc.prems by simp
  then show ?case
    by (auto simp: Suc.IH timer_tick_def Let_def cmp less_Suc_eq_le)
qed

section \<open>The printer\<close>

lemma c_abs_small:
  assumes "unat d < 2 ^ 31"
  shows "c_abs d = d"
proof -
  have d: "uint d = int (unat d)" by simp
  have "int (unat d) < 2 ^ 31" using assms by (metis of_nat_less_iff of_nat_numeral of_nat_power)
  moreover have "- (2 ^ 31) \<le> int (unat d)" by (rule order_trans [where y = 0]) simp_all
  ultimately have "to_int32 (int (unat d)) = int (unat d)"
    unfolding to_int32_def by (intro signed_take_bit_int_eq_self)
  then have "c_abs d = of_int (int (unat d))"
    unfolding c_abs_def d by simp
  then show ?thesis by (simp only: of_int_of_nat_eq u64_of_nat_unat)
qed

lemma print_ticks_sum:
  assumes "\<forall>x\<in>set (zip (t # ts) ts). unat (snd x - fst x) < 2 ^ 31"
    and "map (foldl (+) 0) gs = ts"
  shows "foldl (\<lambda>s g. print_tick g s) (t, u) gs = (last (t # ts), u + (last (t # ts) - t))"
  using assms
proof (induction gs arbitrary: t ts u)
  case Nil
  then show ?case by simp
next
  case (Cons g gs)
  let ?t = "foldl (+) 0 g"
  obtain ts' where ts: "ts = ?t # ts'" "map (foldl (+) 0) gs = ts'" using Cons.prems by auto
  have "unat (?t - t) < 2 ^ 31" using Cons.prems(1) ts by simp
  then have "print_tick g (t, u) = (?t, u + (?t - t))" by (simp add: print_tick_def c_abs_small Let_def)
  with Cons.IH [of ?t ts' "u + (?t - t)"] Cons.prems(1) ts show ?case by simp
qed

section \<open>The command line\<close>

lemma hot_config_of_command:
  assumes "T \<le> 64" "256 \<le> U" "U < 2 ^ 63" "9 \<le> E" "E < 64" "atof_int h = int H" "H < 64"
  shows "hot_config_of atof_int [prog, decimal T, decimal U, decimal E, decimal 8, h, mv] =
    Inr \<lparr>hot_base = command_config T U E, tot_hot_size = of_nat (2 ^ H), do_move_hotset = (atoi mv \<noteq> 0)\<rparr>"
proof -
  have a: "atoi (decimal T) = int T" "atol (decimal U) = int U" "atoi (decimal E) = int E"
    "atoi (decimal 8) = 8"
    using assms by (simp_all add: cnum_simps)
  have e: "unat (of_nat E :: u64) = E" using assms(5) by (intro u64_of_nat) simp
  have "8 < (of_nat E :: u64)" using assms(4) by (simp only: word_less_nat_alt e) simp
  moreover have "push_bit H 1 = (of_nat (2 ^ H) :: u64)" by (simp add: push_bit_eq_mult)
  ultimately show ?thesis
    using assms(1,5,6,7) rounded_updates [OF assms(2,3)] rounded_size [OF assms(4,5)]
    by (simp add: hot_config_of_def a e command_config_def Let_def)
qed

lemma elems_of_power:
  assumes "0 < T" "T \<le> 64" "H < 64"
  shows "unat (of_nat (2 ^ H div T div 8) :: u64) = 2 ^ H div T div 8"
    and "(of_nat (2 ^ H) :: u64) div of_nat T div 8 = of_nat (2 ^ H div T div 8)"
proof -
  have H: "(2 :: nat) ^ H < 2 ^ 64" by (rule pow_lt_64 [OF assms(3)])
  have T: "T < 2 ^ 64" using assms(2) by simp
  have q: "2 ^ H div T < (2 :: nat) ^ 64" using H by (meson div_le_dividend le_less_trans)
  then have "2 ^ H div T div 8 < (2 :: nat) ^ 64" by (meson div_le_dividend le_less_trans)
  then show "unat (of_nat (2 ^ H div T div 8) :: u64) = 2 ^ H div T div 8" by (rule u64_of_nat)
  have "of_nat (2 ^ H) div of_nat T div of_nat 8 = (of_nat (2 ^ H div T div 8) :: u64)"
    unfolding of_nat_div_u64 [OF H T] by (rule of_nat_div_u64 [OF q]) simp
  then show "(of_nat (2 ^ H) :: u64) div of_nat T div 8 = of_nat (2 ^ H div T div 8)" by simp
qed

lemma double_div:
  fixes x d :: nat
  assumes "0 < d"
  shows "x div d * 2 \<le> x * 2 div d"
proof -
  have "x div d * d \<le> x" by simp
  then have "x div d * 2 * d \<le> x * 2" by linarith
  then show ?thesis using assms by (simp only: less_eq_div_iff_mult_less_eq)
qed

lemma command_hot_fits:
  assumes "0 < T" "T \<le> 64" "9 \<le> E" "E < 64" "H < E" "8 * T \<le> 2 ^ H"
  shows "hot_fits (of_nat (2 ^ E)) (command_config T U E) (command_elems T E) (hot_elems T H) T"
proof -
  let ?h = "(2 :: nat) ^ H div (T * 8)" and ?n = "(2 :: nat) ^ E div (T * 8)"
  have pos: "0 < T * 8" using assms(1) by simp
  have "(2 :: nat) ^ Suc H \<le> 2 ^ E" using assms(5) by (intro power_increasing) simp_all
  then have "(2 :: nat) ^ H * 2 \<le> 2 ^ E" by (simp add: mult.commute)
  moreover have "?h * 2 \<le> (2 ^ H * 2) div (T * 8)" by (rule double_div [OF pos])
  ultimately have "?h * 2 \<le> ?n" by (meson div_le_mono le_trans)
  moreover have "?h div 4 \<le> ?h" by simp
  ultimately have le: "?h + ?h div 4 \<le> ?n" by linarith
  have "0 < ?h" using pos assms(6) by (simp add: div_greater_zero_iff mult.commute)
  moreover have "unat (hot_elems T H) = ?h" "unat (command_elems T E) = ?n"
    using elems_of_power(1) [OF assms(1,2), of H] elems_of_power(1) [OF assms(1,2,4)] assms(4,5)
    by (simp_all add: hot_elems_def command_elems_def div_mult2_eq)
  ultimately show ?thesis
    using le command_fits(1) [OF assms(1-4)] by (simp add: hot_fits_def)
qed

section \<open>Properties\<close>



text \<open>
  when a thread has ended, early or not, its counter is the number of iterations it made
  rounded up to a multiple of 10000, and it counted at most one access per iteration to the
  part of the hot set that moves.
\<close>

theorem hot_thread_counts:
  assumes "hot_fits sz cfg nelems hot T" and "k < T"
    and "run_alone (hot_step p sz (hot_thread_args cfg p nelems hot k) mv st) n (HotLoop 0 seed 0 0) m =
      Inr (HotDone b c, m')"
  shows "\<exists>d\<le>updates cfg * 2. b \<le> d \<and> c = of_nat (10000 * ((unat d + 9999) div 10000))"
proof -
  have "hot_thread_ok p nelems (updates cfg * 2) k (HotLoop 0 seed 0 0)"
    by (simp add: hot_thread_ok_def hot_count_def)
  moreover have "k < (if hot_fits sz cfg nelems hot T then T else 0)" using assms(1,2) by simp
  ultimately have "hot_thread_ok p nelems (updates cfg * 2) k (HotDone b c)"
    using hot8.alone_total [where k = k and mv = "\<lambda>_. mv" and st = "\<lambda>_. st" and c = n and m = m] assms(3)
    by fastforce
  then show ?thesis by (auto simp: hot_thread_ok_def hot_count_def)
qed

theorem hot_thread_counts_witness:
  "\<exists>b c m' d. run_alone (hot_step 0x1000 512
       (hot_thread_args (command_config 2 300 9) 0x1000 (command_elems 2 9) (hot_elems 2 8) 0)
       (\<lambda>_. False) (\<lambda>_. True)) 2 (HotLoop 0 5 0 0) (\<lambda>_. 0) = Inr (HotDone b c, m') \<and>
     d \<le> 512 \<and> b \<le> d \<and> c = of_nat (10000 * ((unat d + 9999) div 10000))"
proof -
  let ?args = "hot_thread_args (command_config 2 300 9) 0x1000 (command_elems 2 9) (hot_elems 2 8) 0"
  let ?step = "hot_step 0x1000 512 ?args (\<lambda>_. False) (\<lambda>_. True)"
  have fits: "hot_fits 512 (command_config 2 300 9) (command_elems 2 9) (hot_elems 2 8) 2"
    using command_hot_fits [of 2 9 8 300] by simp
  have u: "updates (command_config 2 300 9) * 2 = 512" by (simp add: command_config_def)
  have "(0 :: u64) < updates (command_config 2 300 9) * 2" unfolding u by simp
  from hot_step_loop [OF fits _ this, of 0 "0x1000" "\<lambda>_. False" "\<lambda>_. True" 5 0 0]
  obtain b a bs where first: "?step (HotLoop 0 5 0 0) (\<lambda>_. 0) = Inr (HotWrite 0 (lfsr_fast 5) b 0 a bs, \<lambda>_. 0)"
    by auto
  have "?step (HotWrite 0 (lfsr_fast 5) b 0 a bs) (\<lambda>_. 0) = Inr (HotDone b 10000, write_bytes (\<lambda>_. 0) a bs)"
    by (simp add: hot_step_def)
  with first have "run_alone ?step (Suc (Suc 0)) (HotLoop 0 5 0 0) (\<lambda>_. 0) =
      Inr (HotDone b 10000, write_bytes (\<lambda>_. 0) a bs)" by simp
  then have run: "run_alone ?step 2 (HotLoop 0 5 0 0) (\<lambda>_. 0) =
      Inr (HotDone b 10000, write_bytes (\<lambda>_. 0) a bs)" by (simp only: numeral_2_eq_2)
  from hot_thread_counts [OF fits _ run] obtain d where
    "d \<le> 512" "b \<le> d" "10000 = (of_nat (10000 * ((unat d + 9999) div 10000)) :: u64)"
    unfolding u by (meson zero_less_numeral)
  with run show ?thesis by blast
qed

text \<open>
  the timer: \<^verbatim>\<open>move_hotset1\<close> is set at the 151st tick, when the hot set is to move at all, and
  stays set; its message is printed once; \<^verbatim>\<open>stop\<close> is set from the 601st tick on.
\<close>

theorem timer_switches:
  assumes "n < 2 ^ 63"
  shows "(move_hotset1 (fst (timer_run do_move n)) \<longleftrightarrow> do_move \<and> 150 < n) \<and>
    (stop (fst (timer_run do_move n)) \<longleftrightarrow> 600 < n) \<and>
    snd (timer_run do_move n) = (if do_move \<and> 150 < n then 1 else 0)"
  using timer_run_eq [OF assms] by simp

theorem timer_switches_witness:
  "move_hotset1 (fst (timer_run True 200)) \<and> \<not> stop (fst (timer_run True 200)) \<and> snd (timer_run True 200) = 1"
  using timer_switches [of 200 True] by simp

text \<open>
  as long as the threads make fewer than $2^{31}$ updates a second, the total that the printer
  accumulates is the last sum of the counters that it saw.
\<close>

theorem printer_total:
  assumes "\<forall>x\<in>set (zip (0 # map (foldl (+) 0) gs) (map (foldl (+) 0) gs)). unat (snd x - fst x) < 2 ^ 31"
    and "gs \<noteq> []"
  shows "snd (foldl (\<lambda>s g. print_tick g s) (0, 0) gs) = foldl (+) 0 (last gs)"
  using print_ticks_sum [OF assms(1) refl, of 0] assms(2) by (simp add: last_map)

theorem printer_total_witness:
  "snd (foldl (\<lambda>s g. print_tick g s) (0, 0) [[10000, 20000], [30000, 70000]]) = 100000"
  using printer_total [of "[[10000, 20000], [30000, 70000]]"] by simp

text \<open>
  the difference goes through \<^verbatim>\<open>int\<close>: when exactly $2^{32}$ updates have been made since the
  last second, none of them is counted.
\<close>

theorem printer_loses_updates: "print_tick [t + 2 ^ 32] (t, u) = (t + 2 ^ 32, u)"
proof -
  have "c_abs (2 ^ 32) = 0" by (simp add: c_abs_def to_int32_def Let_def)
  moreover have "t + 2 ^ 32 - t = (2 ^ 32 :: u64)" by simp
  ultimately show ?thesis by (simp add: print_tick_def Let_def)
qed



end
