(* ===== verification/C_Floats.thy ===== *)
theory C_Floats
  imports Fbmm_Prelude
begin

text \<open>
  The floating-point operations that the benchmarks use, as a record of functions on a type of
  numbers.  The programs' results are stated for any such operations; where a property needs a
  law of the arithmetic, the law is a hypothesis.
\<close>

record 'd fp =
  fp_add :: "'d \<Rightarrow> 'd \<Rightarrow> 'd"
  fp_sub :: "'d \<Rightarrow> 'd \<Rightarrow> 'd"
  fp_mul :: "'d \<Rightarrow> 'd \<Rightarrow> 'd"
  fp_div :: "'d \<Rightarrow> 'd \<Rightarrow> 'd"
  fp_pow :: "'d \<Rightarrow> 'd \<Rightarrow> 'd"
  fp_neg :: "'d \<Rightarrow> 'd"
  fp_less :: "'d \<Rightarrow> 'd \<Rightarrow> bool"
  fp_le :: "'d \<Rightarrow> 'd \<Rightarrow> bool"
  fp_of :: "u64 \<Rightarrow> 'd"
  fp_to :: "'d \<Rightarrow> u64"
  fp_to_int :: "'d \<Rightarrow> int"
  fp_half :: 'd

text \<open>The macros \<^verbatim>\<open>MIN\<close>, \<^verbatim>\<open>MAX\<close> and \<^verbatim>\<open>abs\<close> of \<^verbatim>\<open>stream.c\<close>.\<close>

definition fp_min :: "'d fp \<Rightarrow> 'd \<Rightarrow> 'd \<Rightarrow> 'd" where
  "fp_min F x y = (if fp_less F x y then x else y)"

definition fp_max :: "'d fp \<Rightarrow> 'd \<Rightarrow> 'd \<Rightarrow> 'd" where
  "fp_max F x y = (if fp_less F y x then x else y)"

definition fp_abs :: "'d fp \<Rightarrow> 'd \<Rightarrow> 'd" where
  "fp_abs F x = (if fp_le F (fp_of F 0) x then x else fp_neg F x)"

text \<open>Integers, as an example of such operations.\<close>

definition int_fp :: "int fp" where
  "int_fp = \<lparr>fp_add = (+), fp_sub = (-), fp_mul = (*), fp_div = (div), fp_pow = (\<lambda>x y. x), fp_neg = uminus,
     fp_less = (<), fp_le = (\<le>), fp_of = uint, fp_to = of_int, fp_to_int = id, fp_half = 0\<rparr>"

end
