(* ===== verification/Zipf.thy ===== *)
theory Zipf
  imports Gups_Hotset C_Floats
begin

text \<open>
  The index generators of \<^verbatim>\<open>bmks/gups/zipf.c\<close>, for its three configurations.  Floating-point
  arithmetic and \<^verbatim>\<open>rand_r\<close> are arguments: the record \<open>'d fp\<close> has the operations on \<^verbatim>\<open>double\<close> that the
  generators use, \<open>rand_r\<close> maps a seed to a number and the next seed.  The loops count with 32-bit
  variables; they are modelled for fewer than $2^{31}$ updates.
\<close>

section \<open>The configuration for uniform indices\<close>

fun uniform_loop :: "(u32 \<Rightarrow> u64 \<times> u32) \<Rightarrow> nat \<Rightarrow> u32 \<Rightarrow> u64 \<Rightarrow> fault + u64 list" where
  "uniform_loop rand_r 0 seed nelems = Inr []"
| "uniform_loop rand_r (Suc n) seed nelems =
     (if nelems = 0 then Inl DivByZero
      else
        (case uniform_loop rand_r n (snd (rand_r seed)) nelems of
           Inl f \<Rightarrow> Inl f
         | Inr is \<Rightarrow> Inr (fst (rand_r seed) mod nelems # is)))"

definition calc_indices_uniform :: "(u32 \<Rightarrow> u64 \<times> u32) \<Rightarrow> nat \<Rightarrow> u64 \<Rightarrow> fault + u64 list" where
  "calc_indices_uniform rand_r n nelems = uniform_loop rand_r n 0 nelems"

section \<open>The configuration with a hot spot\<close>

text \<open>
  \<open>hot r\<close> is the comparison \<^verbatim>\<open>RAND_WITHIN(1) < hotset_prob\<close> and \<open>within r x\<close> is
  \<^verbatim>\<open>(uint64_t)RAND_WITHIN(x)\<close>, both for the number \<open>r\<close> that \<^verbatim>\<open>rand_r\<close> returned.
\<close>

fun hotspot_loop ::
  "(u32 \<Rightarrow> u64 \<times> u32) \<Rightarrow> (u64 \<Rightarrow> bool) \<Rightarrow> (u64 \<Rightarrow> u64 \<Rightarrow> u64) \<Rightarrow> u64 \<Rightarrow> u64 \<Rightarrow> u64 \<Rightarrow> nat \<Rightarrow> u32 \<Rightarrow> u64 list" where
  "hotspot_loop rand_r hot within start hsize nelems 0 seed = []"
| "hotspot_loop rand_r hot within start hsize nelems (Suc n) seed =
     (let (r1, seed1) = rand_r seed; (r2, seed2) = rand_r seed1
      in (if hot r1 then start + within r2 hsize else within r2 nelems) #
         hotspot_loop rand_r hot within start hsize nelems n seed2)"

definition RAND_MAX :: u64 where "RAND_MAX = 2147483647"

text \<open>\<open>fraction n\<close> is \<^verbatim>\<open>(uint64_t)(hotset_fraction * n)\<close>.\<close>

definition calc_indices_hotspot ::
  "(u32 \<Rightarrow> u64 \<times> u32) \<Rightarrow> (u64 \<Rightarrow> bool) \<Rightarrow> (u64 \<Rightarrow> u64 \<Rightarrow> u64) \<Rightarrow> (u64 \<Rightarrow> u64) \<Rightarrow> u64 \<Rightarrow> nat \<Rightarrow> u64 \<Rightarrow>
   fault + u64 list" where
  "calc_indices_hotspot rand_r hot within fraction hotset_start n nelems =
     (let hotset_size = fraction nelems in
      if \<not> hotset_start + hotset_size \<le> nelems then Inl AssertFail
      else Inr (hotspot_loop rand_r hot within hotset_start hotset_size nelems n 0))"

section \<open>The Zipfian configuration\<close>

definition FNV_OFFSET_BASIS_64 :: u64 where "FNV_OFFSET_BASIS_64 = 0xCBF29CE484222325"
definition FNV_PRIME_64 :: u64 where "FNV_PRIME_64 = 1099511628211"

fun fnv_loop :: "nat \<Rightarrow> u64 \<Rightarrow> u64 \<Rightarrow> u64" where
  "fnv_loop 0 val hashval = hashval"
| "fnv_loop (Suc n) val hashval =
     fnv_loop n (drop_bit 8 val) ((hashval XOR (val AND 0xff)) * FNV_PRIME_64)"

definition fnvhash64 :: "u64 \<Rightarrow> u64" where
  "fnvhash64 val = c_abs (fnv_loop 8 val FNV_OFFSET_BASIS_64)"

fun zetastatic_from :: "'d fp \<Rightarrow> u64 list \<Rightarrow> 'd \<Rightarrow> 'd \<Rightarrow> 'd" where
  "zetastatic_from F [] theta acc = acc"
| "zetastatic_from F (i # is) theta acc =
     zetastatic_from F is theta
       (fp_add F acc (fp_div F (fp_of F 1) (fp_pow F (fp_of F (i + 1)) theta)))"

text \<open>The static variables of the generator.\<close>

record 'd zipf =
  items :: u64
  zbase :: u64
  countforzeta :: u64
  zetan :: 'd
  eta :: 'd
  theta :: 'd
  zeta2theta :: 'd
  alpha :: 'd
  lastVal :: u64

definition zeta_range :: "u64 \<Rightarrow> u64 \<Rightarrow> u64 list" where
  "zeta_range st n = map of_nat [unat st..<unat n]"

text \<open>The functions \<^verbatim>\<open>_zeta\<close> and \<^verbatim>\<open>zeta\<close>, with their assignment to \<^verbatim>\<open>countforzeta\<close>.\<close>

definition zeta_from :: "'d fp \<Rightarrow> u64 \<Rightarrow> u64 \<Rightarrow> 'd \<Rightarrow> 'd \<Rightarrow> 'd zipf \<Rightarrow> 'd \<times> 'd zipf" where
  "zeta_from F st n th initialsum z =
     (zetastatic_from F (zeta_range st n) th initialsum, z\<lparr>countforzeta := n\<rparr>)"

definition zeta :: "'d fp \<Rightarrow> u64 \<Rightarrow> 'd \<Rightarrow> 'd zipf \<Rightarrow> 'd \<times> 'd zipf" where
  "zeta F n th z = (zetastatic_from F (zeta_range 0 n) th (fp_of F 0), z\<lparr>countforzeta := n\<rparr>)"

definition new_eta :: "'d fp \<Rightarrow> 'd zipf \<Rightarrow> 'd" where
  "new_eta F z =
     fp_div F (fp_sub F (fp_of F 1)
                 (fp_pow F (fp_div F (fp_of F 2) (fp_of F (items z))) (fp_sub F (fp_of F 1) (theta z))))
              (fp_sub F (fp_of F 1) (fp_div F (zeta2theta z) (zetan z)))"

text \<open>The recomputation at the start of \<^verbatim>\<open>nextValue\<close>, with both of its branches.\<close>

definition recompute :: "'d fp \<Rightarrow> u64 \<Rightarrow> 'd zipf \<Rightarrow> 'd zipf" where
  "recompute F itemcount z =
     (if itemcount \<noteq> countforzeta z then
        if itemcount > countforzeta z then
          (let (zn, z1) = zeta_from F (countforzeta z) itemcount (theta z) (zetan z) z;
               z2 = z1\<lparr>zetan := zn\<rparr> in z2\<lparr>eta := new_eta F z2\<rparr>)
        else if itemcount > countforzeta z then
          (let (zn, z1) = zeta F itemcount (theta z) z;
               z2 = z1\<lparr>zetan := zn\<rparr> in z2\<lparr>eta := new_eta F z2\<rparr>)
        else z
      else z)"

text \<open>\<open>r\<close> is the number \<^verbatim>\<open>rand\<close> returned.\<close>

definition nextValue :: "'d fp \<Rightarrow> u64 \<Rightarrow> u64 \<Rightarrow> 'd zipf \<Rightarrow> u64 \<times> 'd zipf" where
  "nextValue F r itemcount z0 =
     (let z = recompute F itemcount z0;
          u = fp_div F (fp_of F r) (fp_of F RAND_MAX);
          uz = fp_mul F u (zetan z)
      in if fp_less F uz (fp_of F 1) then (zbase z, z)
         else if fp_less F uz (fp_add F (fp_of F 1) (fp_pow F (fp_half F) (theta z))) then (zbase z + 1, z)
         else
           (let ret = zbase z + fp_to F (fp_mul F (fp_of F itemcount)
                  (fp_pow F (fp_add F (fp_sub F (fp_mul F (eta z) u) (eta z)) (fp_of F 1)) (alpha z)))
            in (ret, z\<lparr>lastVal := ret\<rparr>)))"

text \<open>
  \<^verbatim>\<open>calc_indices\<close> of this configuration starts with an assertion that always fails; what follows runs
  only when assertions are compiled out (\<open>ndebug\<close>).  \<open>zc\<close> and \<open>zn\<close> are the two \<^verbatim>\<open>double\<close> constants, \<open>rs t\<close> is
  the result of the \<open>t\<close>-th call of \<^verbatim>\<open>rand\<close>.
\<close>

definition zipf_init :: "'d fp \<Rightarrow> 'd \<Rightarrow> 'd \<Rightarrow> u64 \<Rightarrow> 'd zipf \<Rightarrow> 'd zipf" where
  "zipf_init F zc zn nelems z =
     (let maximum = nelems - 1;
          z1 = z\<lparr>items := maximum - 0 + 1, zbase := 0, theta := zc\<rparr>;
          (z2t, z2) = zeta F 2 zc z1;
          z3 = z2\<lparr>zeta2theta := z2t, alpha := fp_div F (fp_of F 1) (fp_sub F (fp_of F 1) zc),
                  zetan := zn, countforzeta := items z1\<rparr>
      in z3\<lparr>eta := new_eta F z3\<rparr>)"

fun zipf_loop :: "'d fp \<Rightarrow> (nat \<Rightarrow> u64) \<Rightarrow> u64 \<Rightarrow> nat \<Rightarrow> nat \<Rightarrow> 'd zipf \<Rightarrow> fault + u64 list" where
  "zipf_loop F rs nelems t 0 z = Inr []"
| "zipf_loop F rs nelems t (Suc n) z =
     (let (ret, z1) = nextValue F (rs t) nelems z; itemcount = (nelems - 1) - 0 + 1 in
      if itemcount = 0 then Inl DivByZero
      else
        (let ret' = 0 + fnvhash64 ret mod itemcount
         in case zipf_loop F rs nelems (t + 1) n (z1\<lparr>lastVal := ret'\<rparr>) of
              Inl f \<Rightarrow> Inl f
            | Inr is \<Rightarrow> Inr (ret' # is)))"

definition calc_indices_zipfian ::
  "bool \<Rightarrow> 'd fp \<Rightarrow> 'd \<Rightarrow> 'd \<Rightarrow> (nat \<Rightarrow> u64) \<Rightarrow> nat \<Rightarrow> u64 \<Rightarrow> 'd zipf \<Rightarrow> fault + u64 list" where
  "calc_indices_zipfian ndebug F zc zn rs n nelems z0 =
     (if \<not> ndebug then Inl AssertFail
      else
        (let z = zipf_init F zc zn nelems z0;
             z1 = snd (nextValue F (rs 0) nelems z)
         in zipf_loop F rs nelems 1 n z1))"

text \<open>Arithmetic and a state to evaluate the generator with.\<close>

definition word_fp :: "u64 fp" where
  "word_fp = \<lparr>fp_add = (+), fp_sub = (-), fp_mul = (*), fp_div = (div), fp_pow = (\<lambda>x y. x), fp_neg = uminus,
     fp_less = (<), fp_le = (\<le>), fp_of = id, fp_to = id, fp_to_int = sint, fp_half = 0\<rparr>"

definition word_zipf :: "u64 zipf" where
  "word_zipf = \<lparr>items = 20, zbase = 0, countforzeta = 20, zetan = 3, eta = 1, theta = 1, zeta2theta = 1,
     alpha = 1, lastVal = 0\<rparr>"

section \<open>Lemmas\<close>

lemma zipf_indices:
  "0 < nelems \<Longrightarrow> \<exists>is. zipf_loop F rs nelems t n z = Inr is \<and> length is = n \<and> (\<forall>i\<in>set is. i < nelems)"
proof (induction n arbitrary: t z)
  case (Suc n)
  obtain ret z1 where nv: "nextValue F (rs t) nelems z = (ret, z1)" by (cases "nextValue F (rs t) nelems z")
  have "fnvhash64 ret mod nelems < nelems" using Suc.prems by (simp add: word_less_nat_alt unat_mod)
  with Suc.IH [OF Suc.prems, of "t + 1" "z1\<lparr>lastVal := fnvhash64 ret mod nelems\<rparr>"] Suc.prems show ?case
    by (auto simp: nv Let_def)
qed simp

lemma c_abs_cases: "unat (c_abs d) < 2 ^ 31 \<or> c_abs d = - (2 ^ 31)"
proof -
  let ?k = "to_int32 (uint d)"
  have r: "- (2 ^ 31) \<le> ?k" "?k < 2 ^ 31" using to_int32_range [of "uint d"] by simp_all
  have small: "unat (of_int j :: u64) < 2 ^ 31" if "0 \<le> j" "j < 2 ^ 31" for j :: int
  proof -
    have "unat (of_int j :: u64) = nat j"
    proof -
      have "nat j < 2 ^ 64" using that by (simp add: nat_less_iff)
      then have "unat (of_nat (nat j) :: u64) = nat j" by (rule u64_of_nat)
      then show ?thesis using that(1) by simp
    qed
    then show ?thesis using that by (simp add: nat_less_iff)
  qed
  have neg: "to_int32 (- ?k) = - ?k" if "?k < 0" "?k \<noteq> - (2 ^ 31)"
    unfolding to_int32_def using that r by (intro signed_take_bit_int_eq_self) (simp_all add: to_int32_def)
  consider "0 \<le> ?k" | "?k < 0" "?k \<noteq> - (2 ^ 31)" | "?k = - (2 ^ 31)" by linarith
  then show ?thesis
  proof cases
    case 3
    then show ?thesis by (simp add: c_abs_def Let_def to_int32_def)
  qed (use small [of ?k] small [of "- ?k"] r neg in \<open>simp_all add: c_abs_def Let_def\<close>)
qed

lemma uniform_indices:
  "0 < nelems \<Longrightarrow> \<exists>is. uniform_loop rand_r n seed nelems = Inr is \<and> length is = n \<and> (\<forall>i\<in>set is. i < nelems)"
proof (induction n arbitrary: seed)
  case (Suc n)
  have "fst (rand_r seed) mod nelems < nelems" using Suc.prems by (simp add: word_less_nat_alt unat_mod)
  with Suc.IH [OF Suc.prems, of "snd (rand_r seed)"] Suc.prems show ?case by auto
qed simp

lemma hotspot_indices:
  assumes "\<And>seed. fst (rand_r seed) \<le> RAND_MAX" "\<And>r x. r \<le> RAND_MAX \<Longrightarrow> within r x \<le> x"
    and "unat start + unat hsize \<le> unat nelems"
  shows "length (hotspot_loop rand_r hot within start hsize nelems n seed) = n \<and>
    (\<forall>i\<in>set (hotspot_loop rand_r hot within start hsize nelems n seed). i \<le> nelems)"
proof (induction n arbitrary: seed)
  case (Suc n)
  obtain r1 s1 where r1: "rand_r seed = (r1, s1)" by (cases "rand_r seed")
  obtain r2 s2 where r2: "rand_r s1 = (r2, s2)" by (cases "rand_r s1")
  have le: "within r2 x \<le> x" for x using assms(2) [of r2 x] assms(1) [of s1] r2 by simp
  have "unat (within r2 hsize) \<le> unat hsize" using le [of hsize] by (simp only: word_le_nat_alt)
  then have "unat (start + within r2 hsize) \<le> unat nelems"
    using unat_add_le [of start "within r2 hsize"] assms(3) by linarith
  then have "start + within r2 hsize \<le> nelems" by (simp only: word_le_nat_alt)
  with Suc.IH [of s2] le show ?case by (simp add: r1 r2)
qed simp

section \<open>Properties\<close>



text \<open>
  \<^verbatim>\<open>fnvhash64\<close> narrows its 64-bit hash to 31 bits, as \<^verbatim>\<open>abs\<close> takes an \<^verbatim>\<open>int\<close>: the only other
  result is the sign-extended smallest \<^verbatim>\<open>int\<close>.
\<close>

theorem fnvhash64_range: "unat (fnvhash64 val) < 2 ^ 31 \<or> fnvhash64 val = - (2 ^ 31)"
  unfolding fnvhash64_def by (rule c_abs_cases)

text \<open>
  after a decrease of the number of items \<^verbatim>\<open>nextValue\<close> does not recompute its constants: the
  branch for it repeats the condition of the branch for an increase.
\<close>

theorem nextValue_ignores_decrease:
  assumes "itemcount < countforzeta z"
  shows "zetan (snd (nextValue F r itemcount z)) = zetan z \<and> eta (snd (nextValue F r itemcount z)) = eta z \<and>
    countforzeta (snd (nextValue F r itemcount z)) = countforzeta z"
proof -
  have "recompute F itemcount z = z" using assms by (auto simp: recompute_def)
  then show ?thesis by (simp add: nextValue_def Let_def)
qed

theorem nextValue_ignores_decrease_witness:
  "zetan (snd (nextValue word_fp 5 10 word_zipf)) = 3"
  using nextValue_ignores_decrease [of 10 word_zipf word_fp 5] by (simp add: word_zipf_def)

end
