(* ===== verification/Stream_Bench.thy ===== *)
theory Stream_Bench
  imports C_Floats "HOL-Library.Multiset"
begin

text \<open>
  The STREAM benchmark as changed for FBMM, \<^verbatim>\<open>bmks/stream.c\<close>: its three arrays are parts of one
  block from \<^verbatim>\<open>malloc\<close>.  The block is a list of numbers, with \<^verbatim>\<open>a\<close> at 0 and \<^verbatim>\<open>b\<close> and \<^verbatim>\<open>c\<close> at multiples
  of \<open>N + off\<close> (\<^verbatim>\<open>STREAM_ARRAY_SIZE + OFFSET\<close>).  A loop marked \<^verbatim>\<open>omp parallel for\<close> runs its iterations in
  the order of a list \<open>js\<close>; the properties hold for every order.  \<open>clock t\<close> is the \<open>t\<close>-th result of
  \<^verbatim>\<open>mysecond\<close>.
\<close>

section \<open>The kernels\<close>

definition arr_a :: "nat \<Rightarrow> nat \<Rightarrow> nat" where "arr_a D j = j"
definition arr_b :: "nat \<Rightarrow> nat \<Rightarrow> nat" where "arr_b D j = D + j"
definition arr_c :: "nat \<Rightarrow> nat \<Rightarrow> nat" where "arr_c D j = D + (D + j)"

lemmas arr_defs = arr_a_def arr_b_def arr_c_def

definition par_for :: "(nat \<Rightarrow> 'd list \<Rightarrow> 'd list) \<Rightarrow> nat list \<Rightarrow> 'd list \<Rightarrow> 'd list" where
  "par_for body js m = fold body js m"

definition stream_init :: "'d fp \<Rightarrow> nat \<Rightarrow> nat \<Rightarrow> 'd list \<Rightarrow> 'd list" where
  "stream_init F D j m = ((m[arr_a D j := fp_of F 1])[arr_b D j := fp_of F 2])[arr_c D j := fp_of F 0]"

definition stream_double :: "'d fp \<Rightarrow> nat \<Rightarrow> nat \<Rightarrow> 'd list \<Rightarrow> 'd list" where
  "stream_double F D j m = m[arr_a D j := fp_mul F (fp_of F 2) (m ! arr_a D j)]"

definition stream_copy :: "'d fp \<Rightarrow> nat \<Rightarrow> nat \<Rightarrow> 'd list \<Rightarrow> 'd list" where
  "stream_copy F D j m = m[arr_c D j := m ! arr_a D j]"

definition stream_scale :: "'d fp \<Rightarrow> nat \<Rightarrow> nat \<Rightarrow> 'd list \<Rightarrow> 'd list" where
  "stream_scale F D j m = m[arr_b D j := fp_mul F (fp_of F 3) (m ! arr_c D j)]"

definition stream_add :: "'d fp \<Rightarrow> nat \<Rightarrow> nat \<Rightarrow> 'd list \<Rightarrow> 'd list" where
  "stream_add F D j m = m[arr_c D j := fp_add F (m ! arr_a D j) (m ! arr_b D j)]"

definition stream_triad :: "'d fp \<Rightarrow> nat \<Rightarrow> nat \<Rightarrow> 'd list \<Rightarrow> 'd list" where
  "stream_triad F D j m =
     m[arr_a D j := fp_add F (m ! arr_b D j) (fp_mul F (fp_of F 3) (m ! arr_c D j))]"

text \<open>The main loop; \<open>ord t\<close> is the order of the \<open>t\<close>-th parallel loop.\<close>

fun stream_rounds :: "'d fp \<Rightarrow> nat \<Rightarrow> (nat \<Rightarrow> nat list) \<Rightarrow> nat \<Rightarrow> nat \<Rightarrow> 'd list \<Rightarrow> 'd list" where
  "stream_rounds F D ord t 0 m = m"
| "stream_rounds F D ord t (Suc k) m =
     stream_rounds F D ord (t + 4) k
       (par_for (stream_triad F D) (ord (t + 3))
         (par_for (stream_add F D) (ord (t + 2))
           (par_for (stream_scale F D) (ord (t + 1))
             (par_for (stream_copy F D) (ord t) m))))"

text \<open>
  The arrays at the end of \<^verbatim>\<open>main\<close>, from the block that \<^verbatim>\<open>malloc\<close> returned (\<open>None\<close> for a null pointer).
\<close>

definition stream_arrays ::
  "'d fp \<Rightarrow> nat \<Rightarrow> nat \<Rightarrow> nat \<Rightarrow> (nat \<Rightarrow> nat list) \<Rightarrow> 'd list option \<Rightarrow> fault + 'd list" where
  "stream_arrays F N off ntimes ord blk =
     (case blk of
        None \<Rightarrow> Inl (ExitWith (-1))
      | Some m \<Rightarrow>
          (let D = N + off
           in Inr (stream_rounds F D ord 2 ntimes
                (par_for (stream_double F D) (ord 1) (par_for (stream_init F D) (ord 0) m)))))"

section \<open>Validation\<close>

fun expected_rounds :: "'d fp \<Rightarrow> nat \<Rightarrow> 'd \<times> 'd \<times> 'd \<Rightarrow> 'd \<times> 'd \<times> 'd" where
  "expected_rounds F 0 abc = abc"
| "expected_rounds F (Suc k) abc =
     (let aj = fst abc; cj = aj; bj = fp_mul F (fp_of F 3) cj; cj = fp_add F aj bj;
          aj = fp_add F bj (fp_mul F (fp_of F 3) cj)
      in expected_rounds F k (aj, bj, cj))"

definition expected_values :: "'d fp \<Rightarrow> nat \<Rightarrow> 'd \<times> 'd \<times> 'd" where
  "expected_values F ntimes =
     expected_rounds F ntimes (fp_mul F (fp_of F 2) (fp_of F 1), fp_of F 2, fp_of F 0)"

definition avg_err :: "'d fp \<Rightarrow> nat \<Rightarrow> 'd \<Rightarrow> 'd list \<Rightarrow> 'd" where
  "avg_err F N x xs =
     fp_div F (foldl (\<lambda>s y. fp_add F s (fp_abs F (fp_sub F y x))) (fp_of F 0) xs) (fp_of F (of_nat N))"

text \<open>The number of elements that are too far off, printed when the average is.\<close>

definition count_errors :: "'d fp \<Rightarrow> 'd \<Rightarrow> 'd \<Rightarrow> 'd list \<Rightarrow> nat" where
  "count_errors F eps x xs =
     length (filter (\<lambda>y. fp_less F eps (fp_abs F (fp_sub F (fp_div F y x) (fp_of F 1)))) xs)"

text \<open>The check of one array: \<open>None\<close> when it passes, the number of errors it prints otherwise.\<close>

definition check_array :: "'d fp \<Rightarrow> nat \<Rightarrow> 'd \<Rightarrow> 'd \<Rightarrow> 'd list \<Rightarrow> nat option" where
  "check_array F N eps x xs =
     (if fp_less F eps (fp_abs F (fp_div F (avg_err F N x xs) x)) then Some (count_errors F eps x xs) else None)"

definition checkSTREAMresults :: "'d fp \<Rightarrow> nat \<Rightarrow> nat \<Rightarrow> nat \<Rightarrow> 'd \<Rightarrow> 'd list \<Rightarrow> nat option list" where
  "checkSTREAMresults F N off ntimes eps m =
     (let D = N + off; (aj, bj, cj) = expected_values F ntimes
      in [check_array F N eps aj (map (\<lambda>j. m ! arr_a D j) [0..<N]),
          check_array F N eps bj (map (\<lambda>j. m ! arr_b D j) [0..<N]),
          check_array F N eps cj (map (\<lambda>j. m ! arr_c D j) [0..<N])])"

definition solution_validates :: "nat option list \<Rightarrow> bool" where
  "solution_validates rs = list_all (\<lambda>r. r = None) rs"

section \<open>Times\<close>

text \<open>The entry \<^verbatim>\<open>times[j][k]\<close>, for clock readings from the start of the main loop.\<close>

definition stream_time :: "'d fp \<Rightarrow> (nat \<Rightarrow> 'd) \<Rightarrow> nat \<Rightarrow> nat \<Rightarrow> 'd" where
  "stream_time F clock j k = fp_sub F (clock (8 * k + 2 * j + 1)) (clock (8 * k + 2 * j))"

text \<open>The sum, minimum and maximum of a kernel's times without the first; \<open>big\<close> is \<^verbatim>\<open>FLT_MAX\<close>.\<close>

definition stream_summary :: "'d fp \<Rightarrow> 'd \<Rightarrow> (nat \<Rightarrow> 'd) \<Rightarrow> nat \<Rightarrow> 'd \<times> 'd \<times> 'd" where
  "stream_summary F big tm ntimes =
     foldl (\<lambda>(avg, mn, mx) k. (fp_add F avg (tm k), fp_min F mn (tm k), fp_max F mx (tm k)))
       (fp_of F 0, big, fp_of F 0) [1..<ntimes]"

text \<open>\<^verbatim>\<open>checktick\<close>: wait until the clock has advanced by \<open>usec\<close>; \<open>i\<close> counts the readings.\<close>

partial_function (option) wait_tick :: "'d fp \<Rightarrow> 'd \<Rightarrow> (nat \<Rightarrow> 'd) \<Rightarrow> 'd \<Rightarrow> nat \<Rightarrow> ('d \<times> nat) option" where
  "wait_tick F usec clock t1 i =
     (if fp_less F (fp_sub F (clock i) t1) usec then wait_tick F usec clock t1 (i + 1)
      else Some (clock i, i + 1))"

fun times_found :: "'d fp \<Rightarrow> 'd \<Rightarrow> (nat \<Rightarrow> 'd) \<Rightarrow> nat \<Rightarrow> nat \<Rightarrow> 'd list option" where
  "times_found F usec clock 0 i = Some []"
| "times_found F usec clock (Suc n) i =
     (case wait_tick F usec clock (clock i) (i + 1) of
        None \<Rightarrow> None
      | Some (t2, i') \<Rightarrow> map_option (Cons t2) (times_found F usec clock n i'))"

text \<open>\<open>million\<close> is \<^verbatim>\<open>1.0E6\<close>.\<close>

fun min_delta :: "'d fp \<Rightarrow> 'd \<Rightarrow> 'd list \<Rightarrow> int \<Rightarrow> int" where
  "min_delta F million (t0 # t1 # ts) mind =
     (let Delta = fp_to_int F (fp_mul F million (fp_sub F t1 t0))
      in min_delta F million (t1 # ts) (min mind (max Delta 0)))"
| "min_delta F million ts mind = mind"

definition checktick :: "'d fp \<Rightarrow> 'd \<Rightarrow> 'd \<Rightarrow> (nat \<Rightarrow> 'd) \<Rightarrow> nat \<Rightarrow> int option" where
  "checktick F usec million clock i =
     map_option (\<lambda>ts. min_delta F million ts 1000000) (times_found F usec clock 20 i)"

section \<open>Loops over the elements\<close>

text \<open>What the loops do to the elements with index \<open>j\<close> of the three arrays.\<close>

definition lane :: "nat \<Rightarrow> 'd list \<Rightarrow> nat \<Rightarrow> 'd \<times> 'd \<times> 'd" where
  "lane D m j = (m ! arr_a D j, m ! arr_b D j, m ! arr_c D j)"

locale lane_kernel =
  fixes D :: nat and body :: "nat \<Rightarrow> 'd list \<Rightarrow> 'd list" and g :: "'d \<times> 'd \<times> 'd \<Rightarrow> 'd \<times> 'd \<times> 'd"
  assumes keeps_length: "length (body j m) = length m"
    and same_lane: "length m = 3 * D \<Longrightarrow> j < D \<Longrightarrow> lane D (body j m) j = g (lane D m j)"
    and other_lane: "length m = 3 * D \<Longrightarrow> j < D \<Longrightarrow> i < D \<Longrightarrow> i \<noteq> j \<Longrightarrow> lane D (body j m) i = lane D m i"
begin

lemma length_par_for: "length (par_for body js m) = length m"
  unfolding par_for_def by (induction js arbitrary: m) (simp_all add: keeps_length)

lemma lane_par_for:
  assumes "distinct js" "set js \<subseteq> {..<D}" "length m = 3 * D" "i < D"
  shows "lane D (par_for body js m) i = (if i \<in> set js then g (lane D m i) else lane D m i)"
  using assms(1-3) unfolding par_for_def
proof (induction js arbitrary: m)
  case (Cons j js)
  have len: "length (body j m) = 3 * D" using Cons.prems(3) by (simp add: keeps_length)
  have j: "j < D" "j \<notin> set js" using Cons.prems by simp_all
  note IH = Cons.IH [of "body j m"]
  show ?case
  proof (cases "i = j")
    case True
    then show ?thesis using IH len j Cons.prems same_lane [OF Cons.prems(3) j(1)] by simp
  next
    case False
    then show ?thesis
      using IH len Cons.prems other_lane [OF Cons.prems(3) j(1) assms(4) False] by simp
  qed
qed simp

end

lemmas lane_simps = lane_def arr_defs

interpretation init: lane_kernel D "stream_init F D" "\<lambda>_. (fp_of F 1, fp_of F 2, fp_of F 0)" for F D
  by unfold_locales (simp_all add: stream_init_def lane_simps)

interpretation double: lane_kernel D "stream_double F D" "\<lambda>(a, b, c). (fp_mul F (fp_of F 2) a, b, c)" for F D
  by unfold_locales (simp_all add: stream_double_def lane_simps)

interpretation copy: lane_kernel D "stream_copy F D" "\<lambda>(a, b, c). (a, b, a)" for F D
  by unfold_locales (simp_all add: stream_copy_def lane_simps)

interpretation scale: lane_kernel D "stream_scale F D" "\<lambda>(a, b, c). (a, fp_mul F (fp_of F 3) c, c)" for F D
  by unfold_locales (simp_all add: stream_scale_def lane_simps)

interpretation add: lane_kernel D "stream_add F D" "\<lambda>(a, b, c). (a, b, fp_add F a b)" for F D
  by unfold_locales (simp_all add: stream_add_def lane_simps)

interpretation triad: lane_kernel D "stream_triad F D"
  "\<lambda>(a, b, c). (fp_add F b (fp_mul F (fp_of F 3) c), b, c)" for F D
  by unfold_locales (simp_all add: stream_triad_def lane_simps)

lemmas stream_lengths =
  init.length_par_for double.length_par_for copy.length_par_for scale.length_par_for add.length_par_for
  triad.length_par_for

lemma stream_rounds_lane:
  assumes "\<forall>t. distinct (ord t) \<and> set (ord t) = {..<N}" "N \<le> D" "length m = 3 * D" "j < N"
    "lane D m j = abc"
  shows "length (stream_rounds F D ord t k m) = 3 * D \<and>
    lane D (stream_rounds F D ord t k m) j = expected_rounds F k abc"
  using assms(3,5)
proof (induction k arbitrary: t m abc)
  case (Suc k)
  let ?m1 = "par_for (stream_copy F D) (ord t) m"
  let ?m2 = "par_for (stream_scale F D) (ord (t + 1)) ?m1"
  let ?m3 = "par_for (stream_add F D) (ord (t + 2)) ?m2"
  let ?m4 = "par_for (stream_triad F D) (ord (t + 3)) ?m3"
  obtain a b c where abc: "abc = (a, b, c)" by (cases abc)
  have ord: "distinct (ord t)" "set (ord t) \<subseteq> {..<D}" "j \<in> set (ord t)" "j < D" for t
    using assms(1,2,4) by auto
  have len: "length ?m1 = 3 * D" "length ?m2 = 3 * D" "length ?m3 = 3 * D" "length ?m4 = 3 * D"
    using Suc.prems(1) by (simp_all only: stream_lengths)
  have "lane D ?m1 j = (a, b, a)"
    using copy.lane_par_for [OF ord(1,2) Suc.prems(1) ord(4)] ord(3) Suc.prems(2) abc by simp
  then have "lane D ?m2 j = (a, fp_mul F (fp_of F 3) a, a)"
    using scale.lane_par_for [OF ord(1,2) len(1) ord(4)] ord(3) by simp
  then have "lane D ?m3 j = (a, fp_mul F (fp_of F 3) a, fp_add F a (fp_mul F (fp_of F 3) a))"
    using add.lane_par_for [OF ord(1,2) len(2) ord(4)] ord(3) by simp
  then have "lane D ?m4 j = (fp_add F (fp_mul F (fp_of F 3) a) (fp_mul F (fp_of F 3) (fp_add F a (fp_mul F (fp_of F 3) a))),
      fp_mul F (fp_of F 3) a, fp_add F a (fp_mul F (fp_of F 3) a))"
    using triad.lane_par_for [OF ord(1,2) len(3) ord(4)] ord(3) by simp
  from Suc.IH [OF len(4) this, of "t + 4"] show ?case by (simp add: abc Let_def)
qed simp

lemma length_stream_rounds: "length (stream_rounds F D ord t k m) = length m"
  by (induction k arbitrary: t m) (simp_all add: stream_lengths)

lemma stream_arrays_lane:
  assumes "\<forall>t. distinct (ord t) \<and> set (ord t) = {..<N}" "length m = 3 * (N + off)"
  shows "\<exists>m'. stream_arrays F N off ntimes ord (Some m) = Inr m' \<and> length m' = 3 * (N + off) \<and>
    (\<forall>j<N. lane (N + off) m' j = expected_values F ntimes)"
proof -
  let ?D = "N + off"
  let ?m1 = "par_for (stream_init F ?D) (ord 0) m"
  let ?m2 = "par_for (stream_double F ?D) (ord 1) ?m1"
  have len: "length ?m1 = 3 * ?D" "length ?m2 = 3 * ?D" using assms(2) by (simp_all only: stream_lengths)
  have ord: "distinct (ord t)" "set (ord t) \<subseteq> {..<?D}" for t using assms(1) by auto
  have "lane ?D ?m2 j = (fp_mul F (fp_of F 2) (fp_of F 1), fp_of F 2, fp_of F 0)" if "j < N" for j
    using init.lane_par_for [OF ord [of 0] assms(2), where i = j and F = F]
      double.lane_par_for [OF ord [of 1] len(1), where i = j and F = F] that assms(1) by simp
  note rounds = stream_rounds_lane [OF assms(1) le_add1 len(2) _ this]
  show ?thesis
    using rounds len(2) by (simp add: stream_arrays_def expected_values_def Let_def length_stream_rounds)
qed

lemma avg_err_zero:
  assumes "fp_sub F x x = fp_of F 0" "fp_le F (fp_of F 0) (fp_of F 0)"
    "fp_add F (fp_of F 0) (fp_of F 0) = fp_of F 0" "fp_div F (fp_of F 0) (fp_of F (of_nat N)) = fp_of F 0"
  shows "avg_err F N x (replicate n x) = fp_of F 0"
proof -
  have "foldl (\<lambda>s y. fp_add F s (fp_abs F (fp_sub F y x))) (fp_of F 0) (replicate n x) = fp_of F 0"
    using assms(1-3) by (induction n) (simp_all add: fp_abs_def)
  then show ?thesis by (simp add: avg_err_def assms(4))
qed

lemma wait_tick_returns:
  assumes "\<not> fp_less F (fp_sub F (clock (i + n)) t1) usec"
  shows "\<exists>k\<le>n. wait_tick F usec clock t1 i = Some (clock (i + k), i + k + 1) \<and>
    \<not> fp_less F (fp_sub F (clock (i + k)) t1) usec"
  using assms
proof (induction n arbitrary: i)
  case 0
  then show ?case by (simp add: wait_tick.simps [of F usec clock t1 i])
next
  case (Suc n)
  show ?case
  proof (cases "fp_less F (fp_sub F (clock i) t1) usec")
    case True
    from Suc.IH [of "i + 1"] Suc.prems obtain k where k: "k \<le> n"
      "wait_tick F usec clock t1 (i + 1) = Some (clock (i + 1 + k), i + 1 + k + 1)"
      "\<not> fp_less F (fp_sub F (clock (i + 1 + k)) t1) usec" by auto
    then show ?thesis
      using True by (intro exI [of _ "Suc k"]) (simp add: wait_tick.simps [of F usec clock t1 i])
  next
    case False
    then show ?thesis by (intro exI [of _ 0]) (simp add: wait_tick.simps [of F usec clock t1 i])
  qed
qed

lemma times_found_returns:
  assumes "\<And>i. \<exists>n. \<not> fp_less F (fp_sub F (clock (i + 1 + n)) (clock i)) usec"
  shows "\<exists>ts. times_found F usec clock n i = Some ts \<and> length ts = n"
proof (induction n arbitrary: i)
  case (Suc n)
  obtain d where "\<not> fp_less F (fp_sub F (clock (i + 1 + d)) (clock i)) usec" using assms by blast
  from wait_tick_returns [of F clock "i + 1" d "clock i" usec, OF this] obtain k where
    "wait_tick F usec clock (clock i) (i + 1) = Some (clock (i + 1 + k), i + 1 + k + 1)" by blast
  with Suc.IH [of "i + 1 + k + 1"] show ?case by auto
qed simp

lemma min_delta_range: "0 \<le> mind \<Longrightarrow> 0 \<le> min_delta F million ts mind \<and> min_delta F million ts mind \<le> mind"
proof (induction F million ts mind rule: min_delta.induct)
  case (1 F million t0 t1 ts mind)
  let ?d = "fp_to_int F (fp_mul F million (fp_sub F t1 t0))"
  have "0 \<le> min mind (max ?d 0)" using 1(2) by simp
  from 1(1) [OF refl this] show ?case by (simp add: Let_def)
qed simp_all

lemma summary_min:
  assumes "\<And>x. \<not> fp_less F x x" "\<And>x y z. \<not> fp_less F y x \<Longrightarrow> \<not> fp_less F z y \<Longrightarrow> \<not> fp_less F z x"
    "\<And>x y. fp_less F x y \<Longrightarrow> \<not> fp_less F y x"
  shows "\<exists>avg mn mx. foldl (\<lambda>(avg, mn, mx) k. (fp_add F avg (tm k), fp_min F mn (tm k), fp_max F mx (tm k)))
      (a0, m0, x0) ks = (avg, mn, mx) \<and> mn \<in> insert m0 (tm ` set ks) \<and> mx \<in> insert x0 (tm ` set ks) \<and>
      \<not> fp_less F m0 mn \<and> \<not> fp_less F mx x0 \<and>
      (\<forall>k\<in>set ks. \<not> fp_less F (tm k) mn \<and> \<not> fp_less F mx (tm k))"
proof (induction ks arbitrary: a0 m0 x0)
  case Nil
  then show ?case using assms(1) by simp
next
  case (Cons k ks)
  let ?m = "fp_min F m0 (tm k)" and ?x = "fp_max F x0 (tm k)"
  have mm: "\<not> fp_less F m0 ?m" "\<not> fp_less F (tm k) ?m" "\<not> fp_less F ?x x0" "\<not> fp_less F ?x (tm k)"
    "?m \<in> {m0, tm k}" "?x \<in> {x0, tm k}"
    using assms(1,3) by (auto simp: fp_min_def fp_max_def)
  obtain avg mn mx where IH: "foldl (\<lambda>(avg, mn, mx) k. (fp_add F avg (tm k), fp_min F mn (tm k), fp_max F mx (tm k)))
      (fp_add F a0 (tm k), ?m, ?x) ks = (avg, mn, mx)" "mn \<in> insert ?m (tm ` set ks)" "mx \<in> insert ?x (tm ` set ks)"
      "\<not> fp_less F ?m mn" "\<not> fp_less F mx ?x" "\<forall>k\<in>set ks. \<not> fp_less F (tm k) mn \<and> \<not> fp_less F mx (tm k)"
    using Cons.IH [of "fp_add F a0 (tm k)" ?m ?x] by blast
  have "\<not> fp_less F m0 mn" "\<not> fp_less F (tm k) mn" "\<not> fp_less F mx x0" "\<not> fp_less F mx (tm k)"
    using assms(2) mm IH(4,5) by blast+
  with IH mm(5,6) show ?case by auto
qed

section \<open>Properties\<close>

text \<open>
  C37: whatever order the parallel loops run their iterations in, all elements of each of the three
  arrays end with the value that \<^verbatim>\<open>checkSTREAMresults\<close> computes for it, and the check reports no
  error, for any arithmetic in which a value minus itself is zero, zero is not negative, zero
  plus zero and zero divided by the size are zero, and the quotient of zero by an expected value
  is not above the tolerance.
\<close>

theorem stream_validates:
  assumes "\<forall>t. distinct (ord t) \<and> set (ord t) = {..<N}" and "length m = 3 * (N + off)"
    and "expected_values F ntimes = (aj, bj, cj)"
    and "\<forall>x\<in>{aj, bj, cj}. fp_sub F x x = fp_of F 0 \<and> \<not> fp_less F eps (fp_abs F (fp_div F (fp_of F 0) x))"
    and "fp_le F (fp_of F 0) (fp_of F 0)" and "fp_add F (fp_of F 0) (fp_of F 0) = fp_of F 0"
    and "fp_div F (fp_of F 0) (fp_of F (of_nat N)) = fp_of F 0"
  shows "\<exists>m'. stream_arrays F N off ntimes ord (Some m) = Inr m' \<and>
    (\<forall>j<N. m' ! arr_a (N + off) j = aj \<and> m' ! arr_b (N + off) j = bj \<and> m' ! arr_c (N + off) j = cj) \<and>
    solution_validates (checkSTREAMresults F N off ntimes eps m')"
proof -
  obtain m' where m': "stream_arrays F N off ntimes ord (Some m) = Inr m'"
    "\<forall>j<N. lane (N + off) m' j = (aj, bj, cj)"
    using stream_arrays_lane [OF assms(1,2)] assms(3) by metis
  then have lanes: "\<forall>j<N. m' ! arr_a (N + off) j = aj \<and> m' ! arr_b (N + off) j = bj \<and> m' ! arr_c (N + off) j = cj"
    by (simp add: lane_def)
  have const: "map f [0..<N] = replicate N x" if "\<forall>j<N. f j = x" for f :: "nat \<Rightarrow> 'a" and x
    using that by (auto intro: nth_equalityI)
  have "check_array F N eps x (replicate N x) = None" if "x \<in> {aj, bj, cj}" for x
    using avg_err_zero [of F x N N] assms(4-7) that by (auto simp: check_array_def)
  moreover have "map (\<lambda>j. m' ! arr_a (N + off) j) [0..<N] = replicate N aj"
    "map (\<lambda>j. m' ! arr_b (N + off) j) [0..<N] = replicate N bj"
    "map (\<lambda>j. m' ! arr_c (N + off) j) [0..<N] = replicate N cj"
    using lanes by (intro const; simp)+
  ultimately have "solution_validates (checkSTREAMresults F N off ntimes eps m')"
    by (simp add: checkSTREAMresults_def assms(3) Let_def solution_validates_def)
  with m'(1) lanes show ?thesis by blast
qed

theorem stream_validates_witness:
  "\<exists>m'. stream_arrays int_fp 2 1 2 (\<lambda>t. if t = 3 then [1, 0] else [0, 1]) (Some [9, 9, 9, 9, 9, 9, 9, 9, 9]) = Inr m' \<and>
     solution_validates (checkSTREAMresults int_fp 2 1 2 0 m') \<and> m' ! arr_a 3 1 = 450"
proof -
  have "expected_values int_fp (Suc (Suc 0)) = (450, 90, 120)"
    by (simp add: expected_values_def int_fp_def)
  then have ev: "expected_values int_fp 2 = (450, 90, 120)" by (simp only: numeral_2_eq_2)
  have ord: "\<forall>t. distinct (if t = 3 then [1, 0] else [0, 1 :: nat]) \<and>
      set (if t = (3 :: nat) then [1, 0] else [0, 1 :: nat]) = {..<2}"
    by (auto simp: numeral_2_eq_2)
  show ?thesis
    using stream_validates [OF ord _ ev, where m = "[9, 9, 9, 9, 9, 9, 9, 9, 9]" and off = 1 and eps = 0]
    by (auto simp: int_fp_def fp_abs_def)
qed

text \<open>
  C38: \<^verbatim>\<open>checktick\<close> returns, if from every reading on the clock eventually advances by a microsecond,
  and its result is between 0 and 1000000 microseconds.
\<close>

theorem checktick_returns:
  assumes "\<And>i. \<exists>n. \<not> fp_less F (fp_sub F (clock (i + 1 + n)) (clock i)) usec"
  shows "\<exists>q. checktick F usec million clock i = Some q \<and> 0 \<le> q \<and> q \<le> 1000000"
proof -
  obtain ts where "times_found F usec clock 20 i = Some ts"
    using times_found_returns [of F clock usec 20 i, OF assms] by blast
  then show ?thesis using min_delta_range [of 1000000 F million ts] by (simp add: checktick_def)
qed

theorem checktick_returns_witness:
  "\<exists>q. checktick int_fp 1 1 (\<lambda>i. int i div 3) 0 = Some q \<and> 0 \<le> q \<and> q \<le> 1000000"
proof -
  have "\<exists>n. \<not> fp_less int_fp (fp_sub int_fp (int (i + 1 + n) div 3) (int i div 3)) 1" for i
    by (rule exI [of _ 2]) (simp add: int_fp_def)
  then show ?thesis using checktick_returns [of int_fp "\<lambda>i. int i div 3" 1 1 0] by simp
qed

text \<open>
  if comparison is a total preorder, the reported minimum and maximum of a kernel are bounds
  for all its times but the first, and each is one of these times or the initial value of its
  variable.
\<close>

theorem stream_summary_bounds:
  assumes "\<And>x. \<not> fp_less F x x"
    and "\<And>x y z. \<not> fp_less F y x \<Longrightarrow> \<not> fp_less F z y \<Longrightarrow> \<not> fp_less F z x"
    and "\<And>x y. fp_less F x y \<Longrightarrow> \<not> fp_less F y x"
  shows "\<exists>avg mn mx. stream_summary F big (stream_time F clock j) ntimes = (avg, mn, mx) \<and>
    mn \<in> insert big (stream_time F clock j ` {1..<ntimes}) \<and>
    mx \<in> insert (fp_of F 0) (stream_time F clock j ` {1..<ntimes}) \<and>
    (\<forall>k\<in>{1..<ntimes}. \<not> fp_less F (stream_time F clock j k) mn \<and> \<not> fp_less F mx (stream_time F clock j k))"
  using summary_min [OF assms, where ks = "[1..<ntimes]" and tm = "stream_time F clock j"]
  unfolding stream_summary_def by fastforce

theorem stream_summary_bounds_witness:
  "\<exists>avg mn mx. stream_summary int_fp 1000 (stream_time int_fp (\<lambda>i. int i * int i) 0) 4 = (avg, mn, mx) \<and>
     \<not> fp_less int_fp (stream_time int_fp (\<lambda>i. int i * int i) 0 2) mn"
  using stream_summary_bounds [of int_fp 1000 "\<lambda>i. int i * int i" 0 4] by (force simp: int_fp_def)

end
