(* ===== verification/Fbmm_Launch.thy ===== *)
theory Fbmm_Launch
  imports C_Numbers
begin

text \<open>
  The two launchers of the workspace, as the operations they ask the system for, in order.
  \<^verbatim>\<open>bmks/fbmm_wrapper.c\<close> selects the file system that backs a program's memory, by writing its
  mount point to \<^verbatim>\<open>/proc/<pid>/fbmm_mnt_dir\<close>, and then replaces itself by the program.
  \<^verbatim>\<open>bmks/badger-trap.c\<close> turns on the kernel's TLB-miss instrumentation for processes given by name
  or number, or around a command it runs.
\<close>

datatype os_event =
    WriteFile string string
  | Execv string "string list"
  | Execvp string "string list"
  | Syscall nat "string list option" int int
  | ForkFailed
  | Fork
  | WaitChild
  | Message string

text \<open>How the program ends: it returns a status, or another program takes its place.\<close>

datatype ending = Returned int | Replaced

section \<open>The wrapper\<close>

record wrapper_env =
  malloc_ok :: bool
  getpid :: nat
  fopen_ok :: bool
  exec_ok :: bool

definition pid_file :: "nat \<Rightarrow> string" where
  "pid_file pid = ''/proc/'' @ decimal pid @ ''/fbmm_mnt_dir''"

definition PATH_MAX :: nat where "PATH_MAX = 4096"

text \<open>The outer fault is an overflow of the buffer for the file name.\<close>

definition fbmm_wrapper :: "wrapper_env \<Rightarrow> string list \<Rightarrow> fault + (os_event list \<times> ending)" where
  "fbmm_wrapper env argv =
     (if length argv < 3 then Inr ([Message ''usage''], Returned (-1))
      else if \<not> malloc_ok env then Inr ([Message ''no buffer''], Returned (-1))
      else
        (let mnt_dir = argv ! 1; program_name = argv ! 2; name = pid_file (getpid env) in
         if PATH_MAX < length name + 1 then Inl OutOfBounds
         else if \<not> fopen_ok env then Inr ([Message ''could not open''], Returned (-1))
         else
           (let evs = [WriteFile name mnt_dir, Execv program_name (drop 2 argv)]
            in if exec_ok env then Inr (evs, Replaced)
               else Inr (evs @ [Message ''failed to execute''], Returned 0))))"

section \<open>BadgerTrap\<close>

definition BADGER_TRAP_SYSCALL_NR :: nat where "BADGER_TRAP_SYSCALL_NR = 451"

text \<open>
  \<^verbatim>\<open>basename\<close> of \<^verbatim>\<open>libgen.h\<close>: the last component, and the path as the call leaves it (without trailing
  slashes).
\<close>

definition strip_slashes :: "string \<Rightarrow> string" where
  "strip_slashes p = rev (dropWhile (\<lambda>c. c = CHR ''/'') (rev p))"

definition basename :: "string \<Rightarrow> string \<times> string" where
  "basename p =
     (if p = [] then (''.'', p)
      else if strip_slashes p = [] then (''/'', p)
      else (rev (takeWhile (\<lambda>c. c \<noteq> CHR ''/'') (rev (strip_slashes p))), strip_slashes p))"

text \<open>
  \<open>fork_result\<close> is -1, or the child's number: the events of the child, up to its exec, come before
  the parent's wait.  The program returns no status.
\<close>

definition badger_trap :: "int \<Rightarrow> string list \<Rightarrow> os_event list" where
  "badger_trap fork_result argv =
     (if length argv < 2 then [Message ''usage'']
      else if argv ! 1 = ''command'' then
        (if length argv < 3 then [Message ''no command'']
         else
           (let (name, path) = basename (argv ! 2);
                start = Syscall BADGER_TRAP_SYSCALL_NR (Some [name]) 1 1;
                run = (if fork_result = -1 then [ForkFailed]
                       else [Fork, Execvp path (path # drop 3 argv), Message ''launched'', WaitChild])
            in start # run @ [Syscall 314 None 0 1]))
      else if argv ! 1 = ''name'' then
        [Syscall BADGER_TRAP_SYSCALL_NR (Some (drop 2 argv)) (int (length argv) - 2) 1]
      else if argv ! 1 = ''pid'' then
        [Syscall BADGER_TRAP_SYSCALL_NR (Some (drop 2 argv)) (int (length argv) - 2) (-1)]
      else if argv ! 1 = ''help'' then [Message ''usage'']
      else [Message ''cannot run''])"

section \<open>Lemmas\<close>

lemma length_dec_digits: "n < 10 ^ Suc k \<Longrightarrow> length (dec_digits n) \<le> Suc k"
proof (induction k arbitrary: n)
  case 0
  then show ?case by (subst dec_digits.simps) simp
next
  case (Suc k)
  have "n div 10 < 10 ^ Suc k" using Suc.prems by (simp add: less_mult_imp_div_less mult.commute)
  from Suc.IH [OF this] show ?case by (subst dec_digits.simps) simp
qed

lemma pid_file_fits: "pid < 10 ^ 10 \<Longrightarrow> length (pid_file pid) + 1 \<le> PATH_MAX"
  using length_dec_digits [of pid 9] by (simp add: pid_file_def decimal_dec_digits PATH_MAX_def)

lemma strip_slashes_last: "strip_slashes p \<noteq> [] \<Longrightarrow> last (strip_slashes p) \<noteq> CHR ''/''"
  unfolding strip_slashes_def last_rev using hd_dropWhile [of "\<lambda>c. c = CHR ''/''" "rev p"] by simp

lemma basename_component:
  assumes "basename p = (name, path)" "strip_slashes p \<noteq> []"
  shows "name \<noteq> []" "CHR ''/'' \<notin> set name" "\<exists>dir. path = dir @ name"
proof -
  have p: "p \<noteq> []" using assms(2) by (auto simp: strip_slashes_def)
  let ?s = "strip_slashes p"
  have name: "name = rev (takeWhile (\<lambda>c. c \<noteq> CHR ''/'') (rev ?s))" and path: "path = ?s"
    using assms p by (auto simp: basename_def)
  have "hd (rev ?s) \<noteq> CHR ''/''" using strip_slashes_last [OF assms(2)] assms(2) by (simp add: hd_rev)
  then show "name \<noteq> []" using assms(2) by (cases "rev ?s") (auto simp: name)
  show "CHR ''/'' \<notin> set name" by (auto simp: name dest: set_takeWhileD)
  have "?s = rev (dropWhile (\<lambda>c. c \<noteq> CHR ''/'') (rev ?s)) @ name"
    unfolding name by (metis rev_append rev_rev_ident takeWhile_dropWhile_id)
  then show "\<exists>dir. path = dir @ name" unfolding path by blast
qed

section \<open>Properties\<close>





end
