(* ===== verification/Pg_Base.thy ===== *)
theory Pg_Base
  imports Fbmm_Prelude
begin

text \<open>
  Common ground of the modelled parts of PostgreSQL (\<^verbatim>\<open>bmks/postgres/src\<close>): errors, the alignment
  macros of \<^verbatim>\<open>include/c.h\<close>, the size arithmetic of \<^verbatim>\<open>storage/ipc/shmem.c\<close>, and constants of a 64-bit
  x86 build.
\<close>

text \<open>
  \<^verbatim>\<open>ereport\<close> at the levels that end the operation or the process, and a failed \<^verbatim>\<open>Assert\<close>.
\<close>

datatype pg_error = PgError string | PgFatal string | PgAssert

definition TYPEALIGN :: "u64 \<Rightarrow> u64 \<Rightarrow> u64" where
  "TYPEALIGN alignval len = (len + (alignval - 1)) AND NOT (alignval - 1)"

definition TYPEALIGN_DOWN :: "u64 \<Rightarrow> u64 \<Rightarrow> u64" where
  "TYPEALIGN_DOWN alignval len = len AND NOT (alignval - 1)"

definition MAXALIGN :: "u64 \<Rightarrow> u64" where "MAXALIGN len = TYPEALIGN 8 len"
definition BUFFERALIGN :: "u64 \<Rightarrow> u64" where "BUFFERALIGN len = TYPEALIGN 32 len"
definition CACHELINEALIGN :: "u64 \<Rightarrow> u64" where "CACHELINEALIGN len = TYPEALIGN 128 len"
definition BUFFERALIGN_DOWN :: "u64 \<Rightarrow> u64" where "BUFFERALIGN_DOWN len = TYPEALIGN_DOWN 32 len"

definition add_size :: "u64 \<Rightarrow> u64 \<Rightarrow> pg_error + u64" where
  "add_size s1 s2 =
     (let result = s1 + s2 in
      if result < s1 \<or> result < s2 then Inl (PgError ''requested shared memory size overflows size_t'')
      else Inr result)"

definition mul_size :: "u64 \<Rightarrow> u64 \<Rightarrow> pg_error + u64" where
  "mul_size s1 s2 =
     (if s1 = 0 \<or> s2 = 0 then Inr 0
      else
        (let result = s1 * s2 in
         if result div s2 \<noteq> s1 then Inl (PgError ''requested shared memory size overflows size_t'')
         else Inr result))"

section \<open>Alignment\<close>

text \<open>Rounding of natural numbers, the reference for the macros.\<close>

definition round_down :: "nat \<Rightarrow> nat \<Rightarrow> nat" where "round_down a n = n div a * a"
definition round_up :: "nat \<Rightarrow> nat \<Rightarrow> nat" where "round_up a n = round_down a (n + (a - 1))"

lemma unat_less_64: "unat (w :: u64) < 2 ^ 64"
  using unsigned_less [of w] unfolding len64 .

lemma and_not_mask_u64: "unat ((x :: u64) AND NOT (mask k)) = round_down (2 ^ k) (unat x)"
proof -
  have "x AND NOT (mask k) = push_bit k (drop_bit k x)"
    by (rule bit_word_eqI) (auto simp: bit_simps)
  also have "unat \<dots> = take_bit 64 (unat x div 2 ^ k * 2 ^ k)"
    by (simp only: unsigned_push_bit_eq unsigned_drop_bit_eq len64)
      (simp add: take_bit_nat_eq_self [OF unat_less_64] push_bit_eq_mult drop_bit_eq_div)
  also have "\<dots> = unat x div 2 ^ k * 2 ^ k"
    by (rule take_bit_nat_eq_self) (meson div_times_less_eq_dividend le_less_trans unat_less_64)
  finally show ?thesis by (simp add: round_down_def)
qed

lemma unat_plus_small:
  fixes a b :: u64
  assumes "unat a + unat b < 2 ^ 64"
  shows "unat (a + b) = unat a + unat b"
  using assms by (simp only: unat_word_ariths len64 mod_less)

lemma typealign_eqs:
  "MAXALIGN len = (len + 7) AND NOT (mask 3)" "BUFFERALIGN len = (len + 31) AND NOT (mask 5)"
  "CACHELINEALIGN len = (len + 127) AND NOT (mask 7)" "BUFFERALIGN_DOWN len = len AND NOT (mask 5)"
  by (simp_all add: MAXALIGN_def BUFFERALIGN_def CACHELINEALIGN_def BUFFERALIGN_DOWN_def TYPEALIGN_def
      TYPEALIGN_DOWN_def mask_eq_exp_minus_1)

lemma unat_aligns:
  "unat len + 7 < 2 ^ 64 \<Longrightarrow> unat (MAXALIGN len) = round_up 8 (unat len)"
  "unat len + 31 < 2 ^ 64 \<Longrightarrow> unat (BUFFERALIGN len) = round_up 32 (unat len)"
  "unat len + 127 < 2 ^ 64 \<Longrightarrow> unat (CACHELINEALIGN len) = round_up 128 (unat len)"
  "unat (BUFFERALIGN_DOWN len) = round_down 32 (unat len)"
  unfolding typealign_eqs and_not_mask_u64 round_up_def
  using unat_plus_small [of len 7] unat_plus_small [of len 31] unat_plus_small [of len 127] by simp_all

lemma round_down_le: "round_down a n \<le> n" by (simp add: round_down_def)
lemma round_down_dvd [simp]: "a dvd round_down a n" by (simp add: round_down_def)
lemma round_up_dvd [simp]: "a dvd round_up a n" by (simp add: round_up_def)

lemma round_up_bounds:
  assumes "0 < a"
  shows "n \<le> round_up a n" "round_up a n < n + a"
proof -
  have "n + (a - 1) = round_up a n + (n + (a - 1)) mod a" by (simp add: round_up_def round_down_def)
  moreover have "(n + (a - 1)) mod a < a" using assms by simp
  ultimately show "n \<le> round_up a n" "round_up a n < n + a" using assms by linarith+
qed

lemma round_up_least:
  assumes "a dvd k" "n \<le> k" "0 < a"
  shows "round_up a n \<le> k"
proof (rule ccontr)
  obtain q where "k = a * q" using assms(1) by (rule dvdE)
  moreover obtain r where "round_up a n = a * r" using round_up_dvd [of a n] by (rule dvdE)
  ultimately have q: "k = a * q" "round_up a n = a * r" by simp_all
  assume "\<not> round_up a n \<le> k"
  then have "a * Suc q \<le> a * r" using q assms(3) by (intro mult_le_mono2) simp
  then show False using round_up_bounds(2) [OF assms(3), of n] assms(2) q by simp
qed

lemma round_down_greatest: "a dvd k \<Longrightarrow> k \<le> n \<Longrightarrow> 0 < a \<Longrightarrow> k \<le> round_down a n"
  by (auto elim!: dvdE simp: round_down_def less_eq_div_iff_mult_less_eq mult.commute)

section \<open>Size arithmetic\<close>

lemma add_wraps:
  fixes a b :: u64
  assumes "\<not> unat a + unat b < 2 ^ 64"
  shows "a + b < a"
proof -
  have "unat (a + b) = (unat a + unat b) mod 2 ^ 64" by (simp only: unat_word_ariths len64)
  also have "\<dots> = unat a + unat b - 2 ^ 64"
  proof -
    have "2 ^ 64 \<le> unat a + unat b" "unat a + unat b - 2 ^ 64 < 2 ^ 64"
      using assms unat_less_64 [of a] unat_less_64 [of b] by linarith+
    then show ?thesis by (simp only: le_mod_geq mod_less)
  qed
  finally have "unat (a + b) < unat a" using assms unat_less_64 [of b] by linarith
  then show ?thesis by (simp only: word_less_nat_alt)
qed

lemma add_size_eq:
  "add_size a b = (if unat a + unat b < 2 ^ 64 then Inr (a + b)
     else Inl (PgError ''requested shared memory size overflows size_t''))"
proof (cases "unat a + unat b < 2 ^ 64")
  case True
  then have "\<not> a + b < a" "\<not> a + b < b"
    using unat_plus_small [OF True] by (simp_all add: word_less_nat_alt)
  with True show ?thesis by (simp add: add_size_def Let_def)
qed (simp add: add_size_def Let_def add_wraps)

lemma mul_size_eq:
  "mul_size a b = (if unat a * unat b < 2 ^ 64 then Inr (a * b)
     else Inl (PgError ''requested shared memory size overflows size_t''))"
proof (cases "a = 0 \<or> b = 0")
  case True
  then show ?thesis by (auto simp: mul_size_def)
next
  case False
  then have pos: "0 < unat a" "0 < unat b" by (simp_all add: unat_gt_0)
  have m: "unat (a * b) = unat a * unat b mod 2 ^ 64" by (simp only: unat_word_ariths len64)
  show ?thesis
  proof (cases "unat a * unat b < 2 ^ 64")
    case True
    then have "unat (a * b div b) = unat a" using m pos by (simp only: unat_div mod_less) simp
    then have "a * b div b = a" by (simp only: word_unat_eq_iff)
    with True False show ?thesis by (simp add: mul_size_def Let_def)
  next
    case over: False
    have "unat (a * b) < unat a * unat b" unfolding m using over by (meson mod_less_divisor not_less less_le_trans zero_less_numeral zero_less_power)
    then have "unat (a * b) div unat b < unat a" using pos by (simp add: less_mult_imp_div_less)
    then have "a * b div b \<noteq> a" by (metis unat_div nat_less_le)
    with over False show ?thesis by (simp add: mul_size_def Let_def)
  qed
qed

end
