(* ===== verification/Region_Allocator.thy ===== *)
theory Region_Allocator
  imports Pg_Base
begin

text \<open>
  What PostgreSQL's two allocators of shared memory have in common: memory is only ever handed
  out, never given back.  The interface \<open>region_allocator\<close> asks that a block is outside all memory
  handed out before; its client is a sequence of requests, whose blocks are then disjoint.
\<close>

definition block :: "u64 \<Rightarrow> u64 \<Rightarrow> nat set" where
  "block a n = {unat a..<unat a + unat n}"

text \<open>A sequence of requests, with the blocks of those that succeed.\<close>

fun alloc_all :: "(u64 \<Rightarrow> 's \<Rightarrow> (u64 \<times> 's) option) \<Rightarrow> u64 list \<Rightarrow> 's \<Rightarrow> (u64 \<times> u64) list \<times> 's" where
  "alloc_all alloc [] s = ([], s)"
| "alloc_all alloc (n # ns) s =
     (case alloc n s of
        None \<Rightarrow> alloc_all alloc ns s
      | Some (a, s1) \<Rightarrow> (let (bs, s2) = alloc_all alloc ns s1 in ((a, n) # bs, s2)))"

text \<open>Blocks at different positions of a list share no byte.\<close>

fun disjoint_blocks :: "(u64 \<times> u64) list \<Rightarrow> bool" where
  "disjoint_blocks [] = True"
| "disjoint_blocks ((a, n) # bs) =
     (list_all (\<lambda>(b, k). block a n \<inter> block b k = {}) bs \<and> disjoint_blocks bs)"

locale region_allocator =
  fixes alloc :: "u64 \<Rightarrow> 's \<Rightarrow> (u64 \<times> 's) option"
    and taken :: "'s \<Rightarrow> nat set"
    and inv :: "'s \<Rightarrow> bool"
    and fits :: "u64 \<Rightarrow> bool"
  assumes alloc_inv: "inv s \<Longrightarrow> fits n \<Longrightarrow> alloc n s = Some (a, s') \<Longrightarrow> inv s'"
    and alloc_fresh: "inv s \<Longrightarrow> fits n \<Longrightarrow> alloc n s = Some (a, s') \<Longrightarrow> block a n \<inter> taken s = {}"
    and alloc_taken: "inv s \<Longrightarrow> fits n \<Longrightarrow> alloc n s = Some (a, s') \<Longrightarrow> block a n \<union> taken s \<subseteq> taken s'"
begin

lemma alloc_all_blocks:
  assumes "inv s" "\<forall>n\<in>set ns. fits n" "alloc_all alloc ns s = (bs, s')"
  shows "inv s' \<and> taken s \<subseteq> taken s' \<and> (\<forall>(a, n)\<in>set bs. block a n \<subseteq> taken s' \<and> block a n \<inter> taken s = {}) \<and>
    disjoint_blocks bs"
  using assms
proof (induction ns arbitrary: s bs)
  case (Cons n ns)
  show ?case
  proof (cases "alloc n s")
    case None
    then show ?thesis using Cons.IH [of s bs] Cons.prems by simp
  next
    case (Some r)
    obtain a s1 where r: "r = (a, s1)" by (cases r)
    obtain cs where cs: "alloc_all alloc ns s1 = (cs, s')" "bs = (a, n) # cs"
      using Cons.prems(3) Some r by (auto split: prod.splits)
    have req: "inv s" "fits n" "alloc n s = Some (a, s1)" using Cons.prems(1,2) Some r by simp_all
    have step: "inv s1" "block a n \<inter> taken s = {}" "block a n \<union> taken s \<subseteq> taken s1"
      by (rule alloc_inv [OF req], rule alloc_fresh [OF req], rule alloc_taken [OF req])
    note IH = Cons.IH [OF step(1) _ cs(1)]
    have "\<forall>(b, k)\<in>set cs. block a n \<inter> block b k = {}"
      using IH step(3) Cons.prems(2) by fastforce
    then show ?thesis
      using IH step Cons.prems(2) cs(2) by (auto simp: list_all_iff) fastforce+
  qed
qed simp

end

end
