(* ===== verification/Shmem_Alloc.thy ===== *)
theory Shmem_Alloc
  imports Region_Allocator
begin

text \<open>
  Allocation of PostgreSQL's main shared memory segment, \<^verbatim>\<open>storage/ipc/shmem.c\<close>: the allocator,
  which moves \<^verbatim>\<open>freeoffset\<close> of the segment's header, and the index of named structures.  The index is
  a \<^verbatim>\<open>dynahash\<close> table; it is a list of entries here, and \<open>grow\<close> gives the sizes that the table requests
  from \<^verbatim>\<open>ShmemAllocNoError\<close> to make room for a new entry.  Locks are held across each operation, so
  the operations are atomic steps.  The assertion of the allocators that the address is aligned is
  a lemma; the other assertions are branches.
\<close>

record PGShmemHeader =
  magic :: int
  creatorPID :: int
  totalsize :: u64
  freeoffset :: u64
  dsm_control :: u32
  hdr_index :: "u64 option"
  device :: u64
  inode :: u64

record ShmemIndexEnt =
  location :: u64
  ent_size :: u64
  allocated_size :: u64

text \<open>
  The static variables of the file, and the contents of the index, which are in the segment and
  exist before a process sets its \<open>ShmemIndex\<close>.
\<close>

record shmem =
  ShmemSegHdr :: PGShmemHeader
  ShmemBase :: u64
  ShmemEnd :: u64
  ShmemLock :: "u64 option"
  ShmemIndex :: "u64 option"
  index_tab :: "(string \<times> ShmemIndexEnt) list"

section \<open>Operations\<close>

text \<open>\<open>addr\<close> is where the segment is mapped.\<close>

definition InitShmemAccess :: "u64 \<Rightarrow> PGShmemHeader \<Rightarrow> shmem \<Rightarrow> shmem" where
  "InitShmemAccess addr shmhdr st =
     st\<lparr>ShmemSegHdr := shmhdr, ShmemBase := addr, ShmemEnd := addr + totalsize shmhdr\<rparr>"

definition set_freeoffset :: "u64 \<Rightarrow> shmem \<Rightarrow> shmem" where
  "set_freeoffset off st = st\<lparr>ShmemSegHdr := (ShmemSegHdr st)\<lparr>freeoffset := off\<rparr>\<rparr>"

text \<open>The address, \<open>None\<close> when space is out, and the allocated size.\<close>

definition ShmemAllocRaw :: "u64 \<Rightarrow> shmem \<Rightarrow> (u64 option \<times> u64) \<times> shmem" where
  "ShmemAllocRaw sz st =
     (let sz = CACHELINEALIGN sz;
          newStart = freeoffset (ShmemSegHdr st);
          newFree = newStart + sz
      in if newFree \<le> totalsize (ShmemSegHdr st)
         then ((Some (ShmemBase st + newStart), sz), set_freeoffset newFree st)
         else ((None, sz), st))"

definition ShmemAlloc :: "u64 \<Rightarrow> shmem \<Rightarrow> (pg_error + u64) \<times> shmem" where
  "ShmemAlloc sz st =
     (case ShmemAllocRaw sz st of
        ((None, _), st') \<Rightarrow> (Inl (PgError ''out of shared memory''), st')
      | ((Some a, _), st') \<Rightarrow> (Inr a, st'))"

definition ShmemAllocNoError :: "u64 \<Rightarrow> shmem \<Rightarrow> u64 option \<times> shmem" where
  "ShmemAllocNoError sz st = (case ShmemAllocRaw sz st of ((a, _), st') \<Rightarrow> (a, st'))"

definition ShmemAllocUnlocked :: "u64 \<Rightarrow> shmem \<Rightarrow> (pg_error + u64) \<times> shmem" where
  "ShmemAllocUnlocked sz st =
     (let sz = MAXALIGN sz;
          newStart = freeoffset (ShmemSegHdr st);
          newFree = newStart + sz
      in if newFree > totalsize (ShmemSegHdr st) then (Inl (PgError ''out of shared memory''), st)
         else (Inr (ShmemBase st + newStart), set_freeoffset newFree st))"

text \<open>The spinlock takes one byte.\<close>

definition InitShmemAllocation :: "shmem \<Rightarrow> (pg_error + unit) \<times> shmem" where
  "InitShmemAllocation st =
     (case ShmemAllocUnlocked 1 st of
        (Inl e, st1) \<Rightarrow> (Inl e, st1)
      | (Inr a, st1) \<Rightarrow>
          (let st2 = st1\<lparr>ShmemLock := Some a\<rparr>;
               aligned = CACHELINEALIGN (ShmemBase st2 + freeoffset (ShmemSegHdr st2));
               st3 = set_freeoffset (aligned - ShmemBase st2) st2
           in (Inr (), st3\<lparr>ShmemSegHdr := (ShmemSegHdr st3)\<lparr>hdr_index := None\<rparr>, ShmemIndex := None\<rparr>)))"

definition ShmemAddrIsValid :: "u64 \<Rightarrow> shmem \<Rightarrow> bool" where
  "ShmemAddrIsValid addr st \<longleftrightarrow> addr \<ge> ShmemBase st \<and> addr < ShmemEnd st"

text \<open>Keys of the index are cut to 47 characters.\<close>

definition index_key :: "string \<Rightarrow> string" where "index_key name = take 47 name"

text \<open>What the hash table allocates for itself; \<open>False\<close> when an allocation fails.\<close>

fun hash_grow :: "u64 list \<Rightarrow> shmem \<Rightarrow> bool \<times> shmem" where
  "hash_grow [] st = (True, st)"
| "hash_grow (n # ns) st =
     (case ShmemAllocNoError n st of
        (None, st') \<Rightarrow> (False, st')
      | (Some _, st') \<Rightarrow> hash_grow ns st')"

text \<open>The assertions at the end of \<^verbatim>\<open>ShmemInitStruct\<close>.\<close>

definition checked_struct :: "u64 \<times> bool \<Rightarrow> shmem \<Rightarrow> (pg_error + (u64 \<times> bool)) \<times> shmem" where
  "checked_struct r st =
     (if ShmemAddrIsValid (fst r) st \<and> fst r = CACHELINEALIGN (fst r) then (Inr r, st) else (Inl PgAssert, st))"

definition ShmemInitStruct ::
  "((string \<times> ShmemIndexEnt) list \<Rightarrow> string \<Rightarrow> u64 list) \<Rightarrow> bool \<Rightarrow> string \<Rightarrow> u64 \<Rightarrow> shmem \<Rightarrow>
   (pg_error + (u64 \<times> bool)) \<times> shmem" where
  "ShmemInitStruct grow IsUnderPostmaster name sz st =
     (if ShmemIndex st = None then
        (if name \<noteq> ''ShmemIndex'' then (Inl PgAssert, st)
         else if IsUnderPostmaster then
           (case hdr_index (ShmemSegHdr st) of
              None \<Rightarrow> (Inl PgAssert, st)
            | Some a \<Rightarrow> (Inr (a, True), st))
         else if hdr_index (ShmemSegHdr st) \<noteq> None then (Inl PgAssert, st)
         else
           (case ShmemAlloc sz st of
              (Inl e, st') \<Rightarrow> (Inl e, st')
            | (Inr a, st') \<Rightarrow>
                (Inr (a, False), st'\<lparr>ShmemSegHdr := (ShmemSegHdr st')\<lparr>hdr_index := Some a\<rparr>\<rparr>)))
      else
        (case map_of (index_tab st) (index_key name) of
           Some ent \<Rightarrow>
             if ent_size ent \<noteq> sz then (Inl (PgError ''ShmemIndex entry size is wrong''), st)
             else checked_struct (location ent, True) st
         | None \<Rightarrow>
             (case hash_grow (grow (index_tab st) name) st of
                (False, st1) \<Rightarrow> (Inl (PgError ''could not create ShmemIndex entry''), st1)
              | (True, st1) \<Rightarrow>
                  (case ShmemAllocRaw sz st1 of
                     ((None, _), st2) \<Rightarrow> (Inl (PgError ''not enough shared memory''), st2)
                   | ((Some a, asz), st2) \<Rightarrow>
                       checked_struct (a, False)
                         (st2\<lparr>index_tab :=
                            (index_key name, \<lparr>location = a, ent_size = sz, allocated_size = asz\<rparr>) # index_tab st2\<rparr>)))))"

text \<open>
  \<open>shared_size\<close> is the value of \<^verbatim>\<open>hash_get_shared_size\<close> and \<open>prealloc\<close> the sizes that \<^verbatim>\<open>hash_create\<close>
  requests for a new table.  The result is the table's address and whether the table existed.
\<close>

definition ShmemInitHash ::
  "((string \<times> ShmemIndexEnt) list \<Rightarrow> string \<Rightarrow> u64 list) \<Rightarrow> u64 \<Rightarrow> u64 list \<Rightarrow> bool \<Rightarrow> string \<Rightarrow> shmem \<Rightarrow>
   (pg_error + (u64 \<times> bool)) \<times> shmem" where
  "ShmemInitHash grow shared_size prealloc IsUnderPostmaster name st =
     (case ShmemInitStruct grow IsUnderPostmaster name shared_size st of
        (Inl e, st1) \<Rightarrow> (Inl e, st1)
      | (Inr (a, True), st1) \<Rightarrow> (Inr (a, True), st1)
      | (Inr (a, False), st1) \<Rightarrow>
          (case hash_grow prealloc st1 of
             (False, st2) \<Rightarrow> (Inl (PgError ''out of memory''), st2)
           | (True, st2) \<Rightarrow> (Inr (a, False), st2)))"

definition InitShmemIndex ::
  "((string \<times> ShmemIndexEnt) list \<Rightarrow> string \<Rightarrow> u64 list) \<Rightarrow> u64 \<Rightarrow> u64 list \<Rightarrow> bool \<Rightarrow> shmem \<Rightarrow>
   (pg_error + unit) \<times> shmem" where
  "InitShmemIndex grow shared_size prealloc IsUnderPostmaster st =
     (case ShmemInitHash grow shared_size prealloc IsUnderPostmaster ''ShmemIndex'' st of
        (Inl e, st1) \<Rightarrow> (Inl e, st1)
      | (Inr (a, found), st1) \<Rightarrow>
          (Inr (), st1\<lparr>ShmemIndex := Some a, index_tab := (if found then index_tab st1 else [])\<rparr>))"

text \<open>
  The rows of \<^verbatim>\<open>pg_get_shmem_allocations\<close>: name, offset, size and allocated size, nulls as \<open>None\<close>.
\<close>

definition pg_get_shmem_allocations ::
  "shmem \<Rightarrow> (string option \<times> u64 option \<times> u64 \<times> u64) list" where
  "pg_get_shmem_allocations st =
     (let hdr = ShmemSegHdr st;
          ents = index_tab st;
          named = foldl (\<lambda>n (_, e). n + allocated_size e) 0 ents;
          anon = freeoffset hdr - named;
          free = totalsize hdr - freeoffset hdr
      in map (\<lambda>(k, e). (Some k, Some (location e - ShmemBase st), ent_size e, allocated_size e)) ents @
         [(Some ''<anonymous>'', None, anon, anon), (None, Some (freeoffset hdr), free, free)])"

section \<open>Specification\<close>

text \<open>The segment is not larger than half the address space and is mapped without wrapping around.\<close>

definition space_ok :: "shmem \<Rightarrow> bool" where
  "space_ok st \<longleftrightarrow>
     128 dvd unat (ShmemBase st) \<and> 128 dvd unat (freeoffset (ShmemSegHdr st)) \<and>
     freeoffset (ShmemSegHdr st) \<le> totalsize (ShmemSegHdr st) \<and>
     unat (totalsize (ShmemSegHdr st)) < 2 ^ 62 \<and>
     unat (ShmemBase st) + unat (totalsize (ShmemSegHdr st)) < 2 ^ 64 \<and>
     ShmemEnd st = ShmemBase st + totalsize (ShmemSegHdr st)"

definition taken_space :: "shmem \<Rightarrow> nat set" where
  "taken_space st = {unat (ShmemBase st)..<unat (ShmemBase st) + unat (freeoffset (ShmemSegHdr st))}"

definition request_ok :: "u64 \<Rightarrow> bool" where "request_ok n \<longleftrightarrow> unat n < 2 ^ 62"

text \<open>The space of the index entries: allocated, aligned, large enough and disjoint.\<close>

definition index_ok :: "shmem \<Rightarrow> bool" where
  "index_ok st \<longleftrightarrow> distinct (map fst (index_tab st)) \<and>
     disjoint_blocks (map (\<lambda>(_, e). (location e, allocated_size e)) (index_tab st)) \<and>
     (\<forall>(_, e)\<in>set (index_tab st). block (location e) (allocated_size e) \<subseteq> taken_space st \<and>
        128 dvd unat (location e) \<and> ent_size e \<le> allocated_size e)"

definition shmem_ok :: "shmem \<Rightarrow> bool" where "shmem_ok st \<longleftrightarrow> space_ok st \<and> index_ok st"

section \<open>The allocator\<close>

named_theorems shmem_simps

lemma set_freeoffset_simps [simp, shmem_simps]:
  "ShmemBase (set_freeoffset off st) = ShmemBase st" "ShmemEnd (set_freeoffset off st) = ShmemEnd st"
  "ShmemIndex (set_freeoffset off st) = ShmemIndex st" "index_tab (set_freeoffset off st) = index_tab st"
  "freeoffset (ShmemSegHdr (set_freeoffset off st)) = off"
  "totalsize (ShmemSegHdr (set_freeoffset off st)) = totalsize (ShmemSegHdr st)"
  by (simp_all add: set_freeoffset_def)

lemma cacheline_request:
  assumes "request_ok n"
  shows "unat (CACHELINEALIGN n) = round_up 128 (unat n)" "unat n \<le> unat (CACHELINEALIGN n)"
    "unat (CACHELINEALIGN n) < 2 ^ 62 + 128"
proof -
  show e: "unat (CACHELINEALIGN n) = round_up 128 (unat n)"
    using assms by (intro unat_aligns) (simp add: request_ok_def)
  show "unat n \<le> unat (CACHELINEALIGN n)" "unat (CACHELINEALIGN n) < 2 ^ 62 + 128"
    using round_up_bounds [of 128 "unat n"] assms unfolding e request_ok_def by linarith+
qed

lemma space_okD:
  assumes "space_ok st"
  shows "unat (freeoffset (ShmemSegHdr st)) \<le> unat (totalsize (ShmemSegHdr st))"
    "unat (totalsize (ShmemSegHdr st)) < 2 ^ 62"
    "unat (ShmemBase st) + unat (totalsize (ShmemSegHdr st)) < 2 ^ 64"
    "ShmemEnd st = ShmemBase st + totalsize (ShmemSegHdr st)"
  using assms by (simp_all add: space_ok_def word_le_nat_alt)

lemma alloc_new_free:
  assumes "space_ok st" "request_ok n"
  shows "unat (freeoffset (ShmemSegHdr st) + CACHELINEALIGN n) =
    unat (freeoffset (ShmemSegHdr st)) + round_up 128 (unat n)"
proof -
  have "unat (freeoffset (ShmemSegHdr st)) + unat (CACHELINEALIGN n) < 2 ^ 64"
    using space_okD(1,2) [OF assms(1)] cacheline_request(3) [OF assms(2)] by simp
  from unat_plus_small [OF this] show ?thesis by (simp only: cacheline_request(1) [OF assms(2)])
qed

lemma alloc_raw_eq:
  assumes "space_ok st" "request_ok n"
  shows "ShmemAllocRaw n st =
    (if unat (freeoffset (ShmemSegHdr st)) + round_up 128 (unat n) \<le> unat (totalsize (ShmemSegHdr st))
     then ((Some (ShmemBase st + freeoffset (ShmemSegHdr st)), CACHELINEALIGN n),
       set_freeoffset (freeoffset (ShmemSegHdr st) + CACHELINEALIGN n) st)
     else ((None, CACHELINEALIGN n), st))"
  by (simp add: ShmemAllocRaw_def Let_def word_le_nat_alt alloc_new_free [OF assms])

lemma space_ok_start:
  assumes "space_ok st"
  shows "unat (ShmemBase st + freeoffset (ShmemSegHdr st)) = unat (ShmemBase st) + unat (freeoffset (ShmemSegHdr st))"
  using space_okD(1,3) [OF assms] by (intro unat_plus_small) linarith

lemma alloc_raw_some:
  assumes "space_ok st" "request_ok n" "ShmemAllocRaw n st = ((Some a, asz), st')"
  shows "space_ok st'" "block a asz \<inter> taken_space st = {}" "taken_space st' = taken_space st \<union> block a asz"
    "n \<le> asz" "128 dvd unat a" "ShmemIndex st' = ShmemIndex st" "index_tab st' = index_tab st"
proof -
  have fit: "unat (freeoffset (ShmemSegHdr st)) + round_up 128 (unat n) \<le> unat (totalsize (ShmemSegHdr st))"
    and a: "a = ShmemBase st + freeoffset (ShmemSegHdr st)" and asz: "asz = CACHELINEALIGN n"
    and st': "st' = set_freeoffset (freeoffset (ShmemSegHdr st) + CACHELINEALIGN n) st"
    using assms(3) unfolding alloc_raw_eq [OF assms(1,2)] by (auto split: if_splits)
  show "space_ok st'"
    using assms(1) fit unfolding st' space_ok_def
    by (simp add: word_le_nat_alt alloc_new_free [OF assms(1,2)])
  show "block a asz \<inter> taken_space st = {}"
    unfolding a block_def space_ok_start [OF assms(1)] taken_space_def by auto
  show "taken_space st' = taken_space st \<union> block a asz"
    unfolding a asz st' block_def space_ok_start [OF assms(1)] taken_space_def
    by (auto simp: alloc_new_free [OF assms(1,2)] cacheline_request(1) [OF assms(2)])
  show "n \<le> asz" unfolding asz word_le_nat_alt by (rule cacheline_request(2) [OF assms(2)])
  show "128 dvd unat a" unfolding a space_ok_start [OF assms(1)] using assms(1) by (simp add: space_ok_def)
  show "ShmemIndex st' = ShmemIndex st" "index_tab st' = index_tab st" unfolding st' by simp_all
qed

definition shmem_request :: "u64 \<Rightarrow> shmem \<Rightarrow> (u64 \<times> shmem) option" where
  "shmem_request n st = (case ShmemAllocNoError n st of (None, _) \<Rightarrow> None | (Some a, st') \<Rightarrow> Some (a, st'))"

lemma shmem_request_some:
  "shmem_request n st = Some (a, st') \<Longrightarrow> \<exists>asz. ShmemAllocRaw n st = ((Some a, asz), st')"
  by (auto simp: shmem_request_def ShmemAllocNoError_def split: prod.splits option.splits)

lemma block_mono: "n \<le> k \<Longrightarrow> block a n \<subseteq> block a k"
  by (auto simp: block_def word_le_nat_alt)

interpretation shmem_region: region_allocator shmem_request taken_space space_ok request_ok
proof unfold_locales
  fix st n a st'
  assume ok: "space_ok st" "request_ok n" and r: "shmem_request n st = Some (a, st')"
  obtain asz where raw: "ShmemAllocRaw n st = ((Some a, asz), st')" using shmem_request_some [OF r] by blast
  note facts = alloc_raw_some [OF ok raw]
  show "space_ok st'" by (rule facts)
  show "block a n \<inter> taken_space st = {}" using facts(2) block_mono [OF facts(4)] by blast
  show "block a n \<union> taken_space st \<subseteq> taken_space st'" using facts(3) block_mono [OF facts(4)] by blast
qed

text \<open>
  C22: A sequence of requests to the shared memory allocator of PostgreSQL hands out blocks that are
  pairwise disjoint, lie inside the segment and outside all memory handed out before, whatever
  requests fail in between.
\<close>

theorem shmem_requests_disjoint:
  assumes "space_ok st" "\<forall>n\<in>set ns. request_ok n" "alloc_all shmem_request ns st = (bs, st')"
  shows "disjoint_blocks bs \<and> space_ok st' \<and>
    (\<forall>(a, n)\<in>set bs. block a n \<inter> taken_space st = {} \<and>
       block a n \<subseteq> {unat (ShmemBase st')..<unat (ShmemBase st') + unat (totalsize (ShmemSegHdr st'))})"
proof -
  note blocks = shmem_region.alloc_all_blocks [OF assms]
  then have "unat (freeoffset (ShmemSegHdr st')) \<le> unat (totalsize (ShmemSegHdr st'))"
    using space_okD(1) by blast
  then have "taken_space st' \<subseteq> {unat (ShmemBase st')..<unat (ShmemBase st') + unat (totalsize (ShmemSegHdr st'))}"
    by (auto simp: taken_space_def)
  then show ?thesis using blocks by blast
qed

section \<open>The index of structures\<close>

lemma hash_grow_keeps:
  assumes "space_ok st" "\<forall>n\<in>set ns. request_ok n" "hash_grow ns st = (ok, st')"
  shows "space_ok st' \<and> taken_space st \<subseteq> taken_space st' \<and> ShmemIndex st' = ShmemIndex st \<and>
    index_tab st' = index_tab st"
  using assms
proof (induction ns arbitrary: st)
  case (Cons n ns)
  obtain a asz st1 where raw: "ShmemAllocRaw n st = ((a, asz), st1)" by (metis surj_pair)
  show ?case
  proof (cases a)
    case None
    then have "st' = st"
      using Cons.prems raw by (auto simp: ShmemAllocNoError_def alloc_raw_eq split: if_splits)
    then show ?thesis using Cons.prems by simp
  next
    case (Some b)
    have n: "request_ok n" using Cons.prems(2) by simp
    note step = alloc_raw_some [OF Cons.prems(1) n raw [unfolded Some]]
    have "hash_grow ns st1 = (ok, st')" using Cons.prems(3) raw Some by (simp add: ShmemAllocNoError_def)
    then show ?thesis using Cons.IH [OF step(1)] Cons.prems(2) step by auto
  qed
qed simp

lemma index_ok_mono:
  assumes "index_ok st" "taken_space st \<subseteq> taken_space st'" "index_tab st' = index_tab st"
  shows "index_ok st'"
  using assms unfolding index_ok_def by fastforce

lemma cacheline_aligned:
  assumes "128 dvd unat a"
  shows "CACHELINEALIGN a = a"
proof -
  obtain q where q: "unat a = 128 * q" using assms by (rule dvdE)
  then have "unat a + 127 < 2 ^ 64" using unat_less_64 [of a] by simp
  then have "unat (CACHELINEALIGN a) = round_up 128 (unat a)" by (rule unat_aligns)
  also have "\<dots> = unat a" by (simp add: q round_up_def round_down_def)
  finally show ?thesis by (simp only: word_unat_eq_iff)
qed

lemma taken_valid:
  assumes "space_ok st" "unat a \<in> taken_space st"
  shows "ShmemAddrIsValid a st"
proof -
  have "unat (ShmemEnd st) = unat (ShmemBase st) + unat (totalsize (ShmemSegHdr st))"
    unfolding space_okD(4) [OF assms(1)] by (rule unat_plus_small [OF space_okD(3) [OF assms(1)]])
  then show ?thesis using assms(2) space_okD(1) [OF assms(1)]
    by (auto simp: ShmemAddrIsValid_def word_le_nat_alt word_less_nat_alt taken_space_def)
qed

lemma checked_struct_ok:
  assumes "space_ok st" "128 dvd unat a" "block a n \<subseteq> taken_space st" "0 < n"
  shows "checked_struct (a, found) st = (Inr (a, found), st)"
proof -
  have "unat a \<in> block a n" using assms(4) by (simp add: block_def word_less_nat_alt)
  then have "ShmemAddrIsValid a st" using taken_valid assms(1,3) by blast
  then show ?thesis by (simp add: checked_struct_def cacheline_aligned [OF assms(2)])
qed

lemma init_struct_attached:
  assumes "ShmemIndex st \<noteq> None"
  shows "map_of (index_tab st) (index_key name) = Some ent \<Longrightarrow>
      ShmemInitStruct grow IsUnderPostmaster name sz st =
      (if ent_size ent \<noteq> sz then (Inl (PgError ''ShmemIndex entry size is wrong''), st)
       else checked_struct (location ent, True) st)"
    "map_of (index_tab st) (index_key name) = None \<Longrightarrow>
      hash_grow (grow (index_tab st) name) st = (b, st1) \<Longrightarrow> ShmemAllocRaw sz st1 = ((p, asz), st2) \<Longrightarrow>
      ShmemInitStruct grow IsUnderPostmaster name sz st =
      (if \<not> b then (Inl (PgError ''could not create ShmemIndex entry''), st1)
       else case p of None \<Rightarrow> (Inl (PgError ''not enough shared memory''), st2)
         | Some a \<Rightarrow> checked_struct (a, False) (st2\<lparr>index_tab :=
             (index_key name, \<lparr>location = a, ent_size = sz, allocated_size = asz\<rparr>) # index_tab st2\<rparr>))"
  using assms by (cases "ShmemIndex st"; cases b; cases p; simp add: ShmemInitStruct_def)+

lemma index_ok_insert:
  assumes "index_ok st" "k \<notin> fst ` set (index_tab st)" "block (location e) (allocated_size e) \<inter> taken_space st = {}"
    "block (location e) (allocated_size e) \<union> taken_space st \<subseteq> taken_space st'" "128 dvd unat (location e)"
    "ent_size e \<le> allocated_size e" "index_tab st' = (k, e) # index_tab st"
  shows "index_ok st'"
proof -
  have "block (location e) (allocated_size e) \<inter> block (location e') (allocated_size e') = {}"
    if "(k', e') \<in> set (index_tab st)" for k' e'
    using that assms(1,3) unfolding index_ok_def by fastforce
  then have "disjoint_blocks (map (\<lambda>(_, e). (location e, allocated_size e)) (index_tab st'))"
    using assms(1,7) by (auto simp: index_ok_def list_all_iff)
  moreover have "\<forall>(k', e')\<in>set (index_tab st). block (location e') (allocated_size e') \<subseteq> taken_space st' \<and>
      128 dvd unat (location e') \<and> ent_size e' \<le> allocated_size e'"
    using assms(1,4) unfolding index_ok_def by fastforce
  ultimately show ?thesis using assms by (simp add: index_ok_def)
qed

lemma init_struct_found:
  assumes "shmem_ok st" "ShmemIndex st \<noteq> None" "map_of (index_tab st) (index_key name) = Some ent"
    "ent_size ent = sz" "0 < sz"
  shows "ShmemInitStruct grow IsUnderPostmaster name sz st = (Inr (location ent, True), st)"
    "block (location ent) sz \<subseteq> taken_space st"
proof -
  have ok: "space_ok st" "block (location ent) (allocated_size ent) \<subseteq> taken_space st" "128 dvd unat (location ent)"
    "ent_size ent \<le> allocated_size ent"
    using assms(1) map_of_SomeD [OF assms(3)] by (auto simp: shmem_ok_def index_ok_def)
  have "0 < allocated_size ent" using ok(4) assms(4,5) by simp
  from checked_struct_ok [OF ok(1,3,2) this] show "ShmemInitStruct grow IsUnderPostmaster name sz st = (Inr (location ent, True), st)"
    using init_struct_attached(1) [OF assms(2,3)] assms(4) by simp
  show "block (location ent) sz \<subseteq> taken_space st" using ok(2,4) block_mono assms(4) by blast
qed

lemma init_struct_new:
  assumes "shmem_ok st" "ShmemIndex st \<noteq> None" "map_of (index_tab st) (index_key name) = None"
    "request_ok sz" "0 < sz" "\<forall>n\<in>set (grow (index_tab st) name). request_ok n"
    "ShmemInitStruct grow IsUnderPostmaster name sz st = (r, st')"
  shows "shmem_ok st' \<and> ShmemIndex st' \<noteq> None \<and> r \<noteq> Inl PgAssert \<and>
    (\<forall>a found. r = Inr (a, found) \<longrightarrow> \<not> found \<and> block a sz \<inter> taken_space st = {} \<and>
       (\<exists>ent. map_of (index_tab st') (index_key name) = Some ent \<and> location ent = a \<and> ent_size ent = sz))"
proof -
  have ok: "space_ok st" "index_ok st" using assms(1) by (simp_all add: shmem_ok_def)
  obtain b st1 where grow: "hash_grow (grow (index_tab st) name) st = (b, st1)" by fastforce
  note g = hash_grow_keeps [OF ok(1) assms(6) grow]
  then have ok1: "space_ok st1" "index_ok st1" using index_ok_mono [OF ok(2)] by simp_all
  obtain p asz st2 where raw: "ShmemAllocRaw sz st1 = ((p, asz), st2)" by (metis surj_pair)
  note init = init_struct_attached(2) [where grow = grow and IsUnderPostmaster = IsUnderPostmaster,
    OF assms(2,3) grow raw, unfolded assms(7)]
  show ?thesis
  proof (cases "b \<and> p \<noteq> None")
    case False
    have "p = None \<Longrightarrow> st2 = st1"
      using raw unfolding alloc_raw_eq [OF ok1(1) assms(4)] by (auto split: if_splits)
    then have "st' = st1" "r \<noteq> Inl PgAssert" "\<forall>x. r \<noteq> Inr x"
      using False init by (auto split: if_splits)
    then show ?thesis using ok1 g assms(2) by (auto simp: shmem_ok_def)
  next
    case True
    then obtain a where a: "p = Some a" "b" by auto
    note new = alloc_raw_some [OF ok1(1) assms(4) raw [unfolded a(1)]]
    define st3 where "st3 = st2\<lparr>index_tab := (index_key name, \<lparr>location = a, ent_size = sz, allocated_size = asz\<rparr>) # index_tab st2\<rparr>"
    have st3: "space_ok st3" "taken_space st3 = taken_space st2" "ShmemIndex st3 = ShmemIndex st"
      "index_tab st3 = (index_key name, \<lparr>location = a, ent_size = sz, allocated_size = asz\<rparr>) # index_tab st"
      using new g by (simp_all add: st3_def space_ok_def taken_space_def)
    have asz: "0 < asz" using new(4) assms(5) by simp
    have "(r, st') = checked_struct (a, False) st3" using init a by (simp add: st3_def)
    also have "\<dots> = (Inr (a, False), st3)"
      using checked_struct_ok [OF st3(1) new(5) _ asz] new(3) st3(2) by simp
    finally have r: "r = Inr (a, False)" "st' = st3" by simp_all
    have "index_key name \<notin> fst ` set (index_tab st)" using assms(3) by (simp add: map_of_eq_None_iff)
    then have "index_ok st3"
      using index_ok_insert [OF ok1(2), of "index_key name" "\<lparr>location = a, ent_size = sz, allocated_size = asz\<rparr>" st3]
        new(2-5) st3(2,4) g by simp
    moreover have "block a sz \<inter> taken_space st = {}" using new(2) g block_mono [OF new(4)] by blast
    ultimately show ?thesis using r st3 assms(2) by (simp add: shmem_ok_def)
  qed
qed


section \<open>The view of the allocations\<close>

lemma finite_block [simp]: "finite (block a n)" by (simp add: block_def)
lemma card_block [simp]: "card (block a n) = unat n" by (simp add: block_def)

lemma disjoint_blocks_card:
  assumes "disjoint_blocks bs" "\<forall>(a, n)\<in>set bs. block a n \<subseteq> S" "finite S"
  shows "sum_list (map (unat \<circ> snd) bs) \<le> card S"
  using assms
proof (induction bs arbitrary: S rule: disjoint_blocks.induct)
  case (2 a n bs)
  have rest: "disjoint_blocks bs" "finite (S - block a n)" using "2.prems"(1,3) by simp_all
  have "block b k \<subseteq> S - block a n" if "(b, k) \<in> set bs" for b k
  proof -
    have "block a n \<inter> block b k = {}" using "2.prems"(1) that by (auto simp: list_all_iff)
    moreover have "block b k \<subseteq> S" using "2.prems"(2) that by auto
    ultimately show ?thesis by blast
  qed
  then have "\<forall>(b, k)\<in>set bs. block b k \<subseteq> S - block a n" by auto
  note "2.IH" [OF rest(1) this rest(2)]
  moreover have "card S = unat n + card (S - block a n)"
  proof -
    have "block a n \<subseteq> S" using "2.prems"(2) by simp
    moreover have "unat n \<le> card S" using card_mono [OF "2.prems"(3) calculation] by simp
    ultimately show ?thesis by (simp add: card_Diff_subset)
  qed
  ultimately show ?case by simp
qed simp

lemma unat_foldl_allocated:
  "unat acc + sum_list (map (\<lambda>(_, e). unat (allocated_size e)) ents) < 2 ^ 64 \<Longrightarrow>
   unat (foldl (\<lambda>n (_, e). n + allocated_size e) acc ents) =
   unat acc + sum_list (map (\<lambda>(_, e). unat (allocated_size e)) ents)"
proof (induction ents arbitrary: acc)
  case (Cons ent ents)
  obtain k e where ent: "ent = (k, e)" by (cases ent)
  have "unat (acc + allocated_size e) = unat acc + unat (allocated_size e)"
    using Cons.prems unfolding ent by (intro unat_plus_small) simp
  then show ?case using Cons.IH [of "acc + allocated_size e"] Cons.prems by (simp add: ent)
qed simp

text \<open>
  C23: The rows that PostgreSQL shows of its shared memory account for the whole segment: the
  allocated sizes of the named structures, the anonymous allocations and the free space add up to the
  segment's size, with no wrap-around.
\<close>

theorem allocations_add_up:
  assumes "shmem_ok st"
  shows "sum_list (map (\<lambda>(_, _, _, n). unat n) (pg_get_shmem_allocations st)) = unat (totalsize (ShmemSegHdr st))"
proof -
  let ?named = "sum_list (map (\<lambda>(_, e). unat (allocated_size e)) (index_tab st))"
  let ?fold = "foldl (\<lambda>n (_, e). n + allocated_size e) 0 (index_tab st)"
  let ?bs = "map (\<lambda>(_, e). (location e, allocated_size e)) (index_tab st)"
  have ok: "space_ok st" "index_ok st" using assms by (simp_all add: shmem_ok_def)
  have "sum_list (map (unat \<circ> snd) ?bs) \<le> card (taken_space st)"
    using ok(2) by (intro disjoint_blocks_card) (auto simp: index_ok_def taken_space_def)
  moreover have "map (unat \<circ> snd) ?bs = map (\<lambda>(_, e). unat (allocated_size e)) (index_tab st)" by auto
  ultimately have le: "?named \<le> unat (freeoffset (ShmemSegHdr st))"
    by (simp add: taken_space_def del: map_map)
  then have "unat ?fold = ?named"
    using unat_foldl_allocated [where acc = 0 and ents = "index_tab st"] unat_less_64 [of "freeoffset (ShmemSegHdr st)"] by simp
  then have "unat (freeoffset (ShmemSegHdr st) - ?fold) = unat (freeoffset (ShmemSegHdr st)) - ?named"
    using le by (simp add: unat_sub word_le_nat_alt)
  moreover have "unat (totalsize (ShmemSegHdr st) - freeoffset (ShmemSegHdr st)) =
      unat (totalsize (ShmemSegHdr st)) - unat (freeoffset (ShmemSegHdr st))"
    using space_okD(1) [OF ok(1)] by (simp add: unat_sub word_le_nat_alt)
  ultimately show ?thesis using le space_okD(1) [OF ok(1)]
    by (simp add: pg_get_shmem_allocations_def Let_def comp_def case_prod_unfold)
qed

section \<open>Start-up\<close>

lemma init_allocation:
  assumes "128 dvd unat addr" "128 dvd unat (totalsize hdr)" "unat (freeoffset hdr) + 8 \<le> unat (totalsize hdr)"
    "unat (totalsize hdr) < 2 ^ 62" "unat addr + unat (totalsize hdr) < 2 ^ 64"
  shows "\<exists>st1. InitShmemAllocation (InitShmemAccess addr hdr st) = (Inr (), st1) \<and> space_ok st1 \<and>
    ShmemLock st1 = Some (addr + freeoffset hdr) \<and> block addr (freeoffset hdr + 8) \<subseteq> taken_space st1 \<and>
    hdr_index (ShmemSegHdr st1) = None \<and> ShmemIndex st1 = None"
proof -
  let ?free = "freeoffset hdr + 8" and ?stop = "addr + (freeoffset hdr + 8)"
  let ?off = "CACHELINEALIGN ?stop - addr"
  have one: "MAXALIGN 1 = 8" by (simp add: MAXALIGN_def TYPEALIGN_def)
  have free: "unat ?free = unat (freeoffset hdr) + 8" using assms(3,4) by (subst unat_plus_small) simp_all
  have e: "unat ?stop = unat addr + (unat (freeoffset hdr) + 8)"
    using assms(3,5) free by (subst unat_plus_small) simp_all
  obtain p q where pq: "unat addr = 128 * p" "unat (totalsize hdr) = 128 * q" using assms(1,2) by (auto elim!: dvdE)
  have up: "unat (CACHELINEALIGN ?stop) = round_up 128 (unat ?stop)"
  proof (rule unat_aligns)
    have "p + q < 2 ^ 57" using assms(5) pq by simp
    then show "unat ?stop + 127 < 2 ^ 64" using assms(3) e pq by simp
  qed
  have bound: "round_up 128 (unat ?stop) \<le> unat addr + unat (totalsize hdr)" "unat ?stop \<le> round_up 128 (unat ?stop)"
    using assms(1-3) e by (auto intro!: round_up_least round_up_bounds)
  have off: "unat ?off = round_up 128 (unat ?stop) - unat addr"
    using bound e up by (simp add: unat_sub word_le_nat_alt)
  define st1 where "st1 = snd (InitShmemAllocation (InitShmemAccess addr hdr st))"
  have "\<not> totalsize hdr < ?free" using free assms(3) by (simp add: word_less_nat_alt)
  then have run: "InitShmemAllocation (InitShmemAccess addr hdr st) = (Inr (), st1)"
    and fields: "ShmemBase st1 = addr" "ShmemEnd st1 = addr + totalsize hdr" "ShmemLock st1 = Some (addr + freeoffset hdr)"
      "freeoffset (ShmemSegHdr st1) = ?off" "totalsize (ShmemSegHdr st1) = totalsize hdr"
      "hdr_index (ShmemSegHdr st1) = None" "ShmemIndex st1 = None"
    by (simp_all add: st1_def InitShmemAllocation_def InitShmemAccess_def ShmemAllocUnlocked_def one set_freeoffset_def
        Let_def)
  have "128 dvd unat ?off" unfolding off using assms(1) by (simp add: dvd_diff_nat)
  moreover have "?off \<le> totalsize hdr" using bound off by (simp add: word_le_nat_alt)
  ultimately have "space_ok st1" using assms fields by (simp add: space_ok_def)
  moreover have "block addr ?free \<subseteq> taken_space st1"
    using bound(2) e free off by (auto simp: block_def taken_space_def fields)
  ultimately show ?thesis using run fields by blast
qed

lemma init_index:
  assumes "space_ok st" "ShmemIndex st = None" "hdr_index (ShmemSegHdr st) = None" "request_ok shared_size"
    "\<forall>n\<in>set prealloc. request_ok n" "InitShmemIndex grow shared_size prealloc False st = (Inr (), st')"
  shows "shmem_ok st' \<and> ShmemIndex st' \<noteq> None \<and> index_tab st' = []"
proof -
  obtain p asz st1 where raw: "ShmemAllocRaw shared_size st = ((p, asz), st1)" by (metis surj_pair)
  obtain a where p: "p = Some a"
    using assms(2,3,6) raw
    by (cases p) (auto simp: InitShmemIndex_def ShmemInitHash_def ShmemInitStruct_def ShmemAlloc_def)
  define st2 where "st2 = st1\<lparr>ShmemSegHdr := (ShmemSegHdr st1)\<lparr>hdr_index := Some a\<rparr>\<rparr>"
  obtain ok st3 where grow: "hash_grow prealloc st2 = (ok, st3)" by fastforce
  have "space_ok st2"
    using alloc_raw_some(1) [OF assms(1,4) raw [unfolded p]] by (simp add: st2_def space_ok_def)
  note g = hash_grow_keeps [OF this assms(5) grow]
  have "st' = st3\<lparr>ShmemIndex := Some a, index_tab := []\<rparr>"
    using assms(2,3,6) raw grow unfolding p
    by (cases ok) (auto simp: InitShmemIndex_def ShmemInitHash_def ShmemInitStruct_def ShmemAlloc_def st2_def)
  then show ?thesis using g by (simp add: shmem_ok_def space_ok_def index_ok_def)
qed


text \<open>
  The allocator does not detect a request so large that rounding it to cache lines wraps around:
  for the last 127 sizes of the type it succeeds, returns the current end of the allocated space and
  allocates nothing.
\<close>

theorem huge_request_wraps:
  assumes "freeoffset (ShmemSegHdr st) \<le> totalsize (ShmemSegHdr st)" "2 ^ 64 - 128 < unat n"
  shows "ShmemAllocRaw n st = ((Some (ShmemBase st + freeoffset (ShmemSegHdr st)), 0), st)"
proof -
  have "unat (n + 127) = (unat n + 127) mod 2 ^ 64" by (simp only: unat_word_ariths len64) simp
  also have "\<dots> = unat n + 127 - 2 ^ 64"
  proof -
    have "2 ^ 64 \<le> unat n + 127" "unat n + 127 - 2 ^ 64 < 2 ^ 64"
      using assms(2) unat_less_64 [of n] by simp_all
    then show ?thesis by (simp only: le_mod_geq mod_less)
  qed
  finally have "unat (n + 127) < 128" using unat_less_64 [of n] by simp
  then have "unat (CACHELINEALIGN n) = 0" by (simp add: typealign_eqs and_not_mask_u64 round_down_def)
  then have "CACHELINEALIGN n = 0" by (simp add: unat_eq_0)
  then show ?thesis using assms(1) by (simp add: ShmemAllocRaw_def Let_def set_freeoffset_def)
qed

section \<open>Witnesses\<close>

text \<open>A segment of 8 KB at address 1 MB with one structure, the space before it being the spinlock's.\<close>

definition demo_shmem :: shmem where
  "demo_shmem = \<lparr>ShmemSegHdr = \<lparr>magic = 679834894, creatorPID = 1, totalsize = 8192, freeoffset = 384,
      dsm_control = 0, hdr_index = Some 0x100000, device = 0, inode = 0\<rparr>,
    ShmemBase = 0x100000, ShmemEnd = 0x102000, ShmemLock = Some 0x100038, ShmemIndex = Some 0x100000,
    index_tab = [(''Buffer Blocks'', \<lparr>location = 0x100080, ent_size = 200, allocated_size = 256\<rparr>)]\<rparr>"

lemma demo_shmem_ok: "shmem_ok demo_shmem" "space_ok demo_shmem"
  by (auto simp: shmem_ok_def space_ok_def index_ok_def demo_shmem_def taken_space_def block_def)

theorem shmem_requests_disjoint_witness:
  "fst (alloc_all shmem_request [100, 10000, 300] demo_shmem) = [(0x100180, 100), (0x100200, 300)] \<and>
   disjoint_blocks [(0x100180, 100), (0x100200, 300)]"
proof -
  have run: "fst (alloc_all shmem_request [100, 10000, 300] demo_shmem) = [(0x100180, 100), (0x100200, 300)]"
    by (simp add: demo_shmem_def shmem_request_def ShmemAllocNoError_def ShmemAllocRaw_def Let_def
        CACHELINEALIGN_def TYPEALIGN_def set_freeoffset_def)
  obtain bs st' where r: "alloc_all shmem_request [100, 10000, 300] demo_shmem = (bs, st')" by fastforce
  then have "bs = [(0x100180, 100), (0x100200, 300)]" using run by simp
  moreover have "disjoint_blocks bs"
    using shmem_requests_disjoint [OF demo_shmem_ok(2) _ r] by (simp add: request_ok_def)
  ultimately show ?thesis using run by simp
qed


theorem allocations_add_up_witness:
  "sum_list (map (\<lambda>(_, _, _, n). unat n) (pg_get_shmem_allocations demo_shmem)) = 8192"
  using allocations_add_up [OF demo_shmem_ok(1)] by (simp add: demo_shmem_def)


theorem huge_request_wraps_witness: "ShmemAllocRaw 0xFFFFFFFFFFFFFFFF demo_shmem = ((Some 0x100180, 0), demo_shmem)"
proof -
  have "freeoffset (ShmemSegHdr demo_shmem) \<le> totalsize (ShmemSegHdr demo_shmem)" by (simp add: demo_shmem_def)
  moreover have "2 ^ 64 - 128 < unat (0xFFFFFFFFFFFFFFFF :: u64)" by simp
  ultimately show ?thesis using huge_request_wraps [of demo_shmem "0xFFFFFFFFFFFFFFFF"] by (simp add: demo_shmem_def)
qed

end
