(* ===== verification/Shm_Toc.thy ===== *)
theory Shm_Toc
  imports Region_Allocator "HOL-Library.Multiset"
begin

text \<open>
  The table of contents of a shared memory segment, \<^verbatim>\<open>storage/ipc/shm_toc.c\<close>: entries grow from the
  start of the segment and chunks from its end.  A segment may be mapped at different addresses, so
  every operation takes the address \<open>toc\<close> at which its caller has the table.  The operations that write
  hold the table's spinlock; the lookup takes no lock.
\<close>

record shm_toc_entry =
  key :: u64
  offset :: u64

record shm_toc =
  toc_magic :: u64
  toc_total_bytes :: u64
  toc_allocated_bytes :: u64
  toc_nentry :: u32
  toc_entry :: "nat \<Rightarrow> shm_toc_entry"

section \<open>Operations\<close>

text \<open>\<open>mem\<close> is what the entries' memory holds before.\<close>

definition shm_toc_create :: "u64 \<Rightarrow> (nat \<Rightarrow> shm_toc_entry) \<Rightarrow> u64 \<Rightarrow> pg_error + shm_toc" where
  "shm_toc_create magic mem nbytes =
     (if nbytes > 40 then
        Inr \<lparr>toc_magic = magic, toc_total_bytes = BUFFERALIGN_DOWN nbytes, toc_allocated_bytes = 0, toc_nentry = 0,
          toc_entry = mem\<rparr>
      else Inl PgAssert)"

definition shm_toc_attach :: "u64 \<Rightarrow> shm_toc \<Rightarrow> pg_error + shm_toc option" where
  "shm_toc_attach magic t =
     (if toc_magic t \<noteq> magic then Inr None
      else if toc_total_bytes t \<ge> toc_allocated_bytes t \<and> toc_total_bytes t > 40 then Inr (Some t)
      else Inl PgAssert)"

definition toc_bytes :: "shm_toc \<Rightarrow> u64" where
  "toc_bytes t = 40 + ucast (toc_nentry t) * 16 + toc_allocated_bytes t"

definition shm_toc_allocate :: "u64 \<Rightarrow> u64 \<Rightarrow> shm_toc \<Rightarrow> pg_error + (u64 \<times> shm_toc)" where
  "shm_toc_allocate toc nbytes t =
     (let nbytes = BUFFERALIGN nbytes;
          total_bytes = toc_total_bytes t;
          allocated_bytes = toc_allocated_bytes t;
          toc_bytes = toc_bytes t
      in if toc_bytes + nbytes > total_bytes \<or> toc_bytes + nbytes < toc_bytes
         then Inl (PgError ''out of shared memory'')
         else Inr (toc + (total_bytes - allocated_bytes - nbytes),
                   t\<lparr>toc_allocated_bytes := toc_allocated_bytes t + nbytes\<rparr>))"

definition shm_toc_freespace :: "shm_toc \<Rightarrow> pg_error + u64" where
  "shm_toc_freespace t =
     (let toc_bytes = 40 + ucast (toc_nentry t) * 16
      in if toc_allocated_bytes t + BUFFERALIGN toc_bytes \<le> toc_total_bytes t
         then Inr (toc_total_bytes t - (toc_allocated_bytes t + BUFFERALIGN toc_bytes))
         else Inl PgAssert)"

text \<open>The two writes of an insertion, which a concurrent lookup can see one by one.\<close>

definition fill_entry :: "u64 \<Rightarrow> u64 \<Rightarrow> shm_toc \<Rightarrow> shm_toc" where
  "fill_entry k off t =
     t\<lparr>toc_entry := (toc_entry t)(unat (toc_nentry t) := \<lparr>key = k, offset = off\<rparr>)\<rparr>"

definition publish_entry :: "shm_toc \<Rightarrow> shm_toc" where
  "publish_entry t = t\<lparr>toc_nentry := toc_nentry t + 1\<rparr>"

definition shm_toc_insert :: "u64 \<Rightarrow> u64 \<Rightarrow> u64 \<Rightarrow> shm_toc \<Rightarrow> pg_error + shm_toc" where
  "shm_toc_insert toc k address t =
     (if \<not> address > toc then Inl PgAssert
      else
        (let off = address - toc;
             toc_bytes = toc_bytes t
         in if toc_bytes + 16 > toc_total_bytes t \<or> toc_bytes + 16 < toc_bytes \<or>
               unat (toc_nentry t) \<ge> 4294967295
            then Inl (PgError ''out of shared memory'')
            else if \<not> off < toc_total_bytes t then Inl PgAssert
            else Inr (publish_entry (fill_entry k off t))))"

text \<open>The search loop from index \<open>i\<close> over \<open>n\<close> entries, where \<open>rd\<close> reads an entry.\<close>

fun toc_search :: "(nat \<Rightarrow> shm_toc_entry) \<Rightarrow> u64 \<Rightarrow> nat \<Rightarrow> nat \<Rightarrow> u64 option" where
  "toc_search rd k i 0 = None"
| "toc_search rd k i (Suc n) = (if key (rd i) = k then Some (offset (rd i)) else toc_search rd k (Suc i) n)"

definition shm_toc_lookup :: "u64 \<Rightarrow> u64 \<Rightarrow> bool \<Rightarrow> shm_toc \<Rightarrow> pg_error + u64 option" where
  "shm_toc_lookup toc k noError t =
     (case toc_search (toc_entry t) k 0 (unat (toc_nentry t)) of
        Some off \<Rightarrow> Inr (Some (toc + off))
      | None \<Rightarrow> if noError then Inr None else Inl (PgError ''could not find key in shm TOC''))"

record shm_toc_estimator =
  space_for_chunks :: u64
  number_of_keys :: u64

definition shm_toc_initialize_estimator :: shm_toc_estimator where
  "shm_toc_initialize_estimator = \<lparr>space_for_chunks = 0, number_of_keys = 0\<rparr>"

definition shm_toc_estimate_chunk :: "u64 \<Rightarrow> shm_toc_estimator \<Rightarrow> pg_error + shm_toc_estimator" where
  "shm_toc_estimate_chunk sz e =
     (case add_size (space_for_chunks e) (BUFFERALIGN sz) of
        Inl err \<Rightarrow> Inl err
      | Inr s \<Rightarrow> Inr (e\<lparr>space_for_chunks := s\<rparr>))"

definition shm_toc_estimate_keys :: "u64 \<Rightarrow> shm_toc_estimator \<Rightarrow> pg_error + shm_toc_estimator" where
  "shm_toc_estimate_keys cnt e =
     (case add_size (number_of_keys e) cnt of
        Inl err \<Rightarrow> Inl err
      | Inr n \<Rightarrow> Inr (e\<lparr>number_of_keys := n\<rparr>))"

definition shm_toc_estimate :: "shm_toc_estimator \<Rightarrow> pg_error + u64" where
  "shm_toc_estimate e =
     (case mul_size (number_of_keys e) 16 of
        Inl err \<Rightarrow> Inl err
      | Inr m \<Rightarrow>
          (case add_size 40 m of
             Inl err \<Rightarrow> Inl err
           | Inr sz \<Rightarrow>
               (case add_size sz (space_for_chunks e) of
                  Inl err \<Rightarrow> Inl err
                | Inr sz \<Rightarrow> Inr (BUFFERALIGN sz))))"

section \<open>Chunks\<close>

definition entries_end :: "shm_toc \<Rightarrow> nat" where
  "entries_end t = 40 + unat (toc_nentry t) * 16"

text \<open>Entries and chunks do not meet, and the segment does not wrap around.\<close>

definition toc_ok :: "u64 \<Rightarrow> shm_toc \<Rightarrow> bool" where
  "toc_ok toc t \<longleftrightarrow>
     32 dvd unat toc \<and> 32 dvd unat (toc_total_bytes t) \<and> 32 dvd unat (toc_allocated_bytes t) \<and>
     entries_end t + unat (toc_allocated_bytes t) \<le> unat (toc_total_bytes t) \<and>
     unat toc + unat (toc_total_bytes t) < 2 ^ 64"

text \<open>The memory of the table itself and of the chunks.\<close>

definition toc_taken :: "u64 \<Rightarrow> shm_toc \<Rightarrow> nat set" where
  "toc_taken toc t =
     {unat toc..<unat toc + entries_end t} \<union>
     {unat toc + (unat (toc_total_bytes t) - unat (toc_allocated_bytes t))..<unat toc + unat (toc_total_bytes t)}"

definition chunk_ok :: "u64 \<Rightarrow> bool" where "chunk_ok n \<longleftrightarrow> unat n + 31 < 2 ^ 64"

lemma toc_okD:
  assumes "toc_ok toc t"
  shows "32 dvd unat toc" "32 dvd unat (toc_total_bytes t)" "32 dvd unat (toc_allocated_bytes t)"
    "entries_end t + unat (toc_allocated_bytes t) \<le> unat (toc_total_bytes t)"
    "unat toc + unat (toc_total_bytes t) < 2 ^ 64"
  using assms by (simp_all add: toc_ok_def)

lemma nentry_bound: "unat (toc_nentry t) < 2 ^ 32"
  using unsigned_less [of "toc_nentry t"] by simp

lemma unat_entries_end: "unat (40 + ucast (toc_nentry t) * 16 :: u64) = entries_end t"
proof -
  note b = nentry_bound [of t]
  then have n: "unat (ucast (toc_nentry t) :: u64) = unat (toc_nentry t)"
    by (simp add: unsigned_ucast_eq take_bit_nat_eq_self)
  from b have "unat (ucast (toc_nentry t) * 16 :: u64) = unat (toc_nentry t) * 16"
    "40 + unat (toc_nentry t) * 16 < 2 ^ 64"
    by (simp_all only: unat_word_ariths len64 n) simp_all
  then show ?thesis using unat_plus_small [of 40 "ucast (toc_nentry t) * 16"] by (simp add: entries_end_def)
qed

lemma unat_toc_bytes:
  assumes "toc_ok toc t"
  shows "unat (toc_bytes t) = entries_end t + unat (toc_allocated_bytes t)"
proof -
  have "entries_end t + unat (toc_allocated_bytes t) < 2 ^ 64"
    using toc_okD(4) [OF assms] unat_less_64 le_less_trans by blast
  then show ?thesis unfolding toc_bytes_def by (simp add: unat_plus_small unat_entries_end)
qed

text \<open>The test for exhaustion and overflow is the comparison of the exact sums.\<close>

lemma sum_exceeds:
  fixes a b c :: u64
  shows "(c < a + b \<or> a + b < a) = (unat c < unat a + unat b)"
proof (cases "unat a + unat b < 2 ^ 64")
  case True
  then show ?thesis by (simp add: word_less_nat_alt unat_plus_small)
next
  case False
  then show ?thesis using add_wraps [OF False] unat_less_64 [of c] by simp
qed

lemma allocate_eq:
  assumes "toc_ok toc t" "chunk_ok n"
  shows "shm_toc_allocate toc n t =
    (if entries_end t + unat (toc_allocated_bytes t) + round_up 32 (unat n) \<le> unat (toc_total_bytes t)
     then Inr (toc + (toc_total_bytes t - toc_allocated_bytes t - BUFFERALIGN n),
       t\<lparr>toc_allocated_bytes := toc_allocated_bytes t + BUFFERALIGN n\<rparr>)
     else Inl (PgError ''out of shared memory''))"
proof -
  have "unat (BUFFERALIGN n) = round_up 32 (unat n)" using assms(2) by (simp add: unat_aligns chunk_ok_def)
  then show ?thesis
    by (simp add: shm_toc_allocate_def Let_def sum_exceeds unat_toc_bytes [OF assms(1)] not_less)
qed

lemma allocate_some:
  assumes "toc_ok toc t" "chunk_ok n" "shm_toc_allocate toc n t = Inr (a, t')"
  shows "toc_ok toc t'" "block a n \<inter> toc_taken toc t = {}" "block a n \<union> toc_taken toc t \<subseteq> toc_taken toc t'"
    "32 dvd unat a" "toc_nentry t' = toc_nentry t" "toc_total_bytes t' = toc_total_bytes t"
    "unat (toc_allocated_bytes t') = unat (toc_allocated_bytes t) + round_up 32 (unat n)"
proof -
  let ?T = "unat (toc_total_bytes t)" and ?A = "unat (toc_allocated_bytes t)" and ?r = "round_up 32 (unat n)"
  note ok = toc_okD [OF assms(1)]
  have r: "unat (BUFFERALIGN n) = ?r" "unat n \<le> ?r" "32 dvd ?r"
    using assms(2) round_up_bounds(1) [of 32 "unat n"] by (simp_all add: unat_aligns chunk_ok_def)
  have fit: "entries_end t + ?A + ?r \<le> ?T" and a: "a = toc + (toc_total_bytes t - toc_allocated_bytes t - BUFFERALIGN n)"
    and t': "t' = t\<lparr>toc_allocated_bytes := toc_allocated_bytes t + BUFFERALIGN n\<rparr>"
    using assms(3) unfolding allocate_eq [OF assms(1,2)] by (auto split: if_splits)
  have alloc: "unat (toc_allocated_bytes t + BUFFERALIGN n) = ?A + ?r"
    using fit r(1) unat_less_64 [of "toc_total_bytes t"] by (subst unat_plus_small) linarith+
  have "unat (toc_total_bytes t - toc_allocated_bytes t) = ?T - ?A"
    using fit by (intro unat_sub) (simp add: word_le_nat_alt)
  then have off: "unat (toc_total_bytes t - toc_allocated_bytes t - BUFFERALIGN n) = ?T - ?A - ?r"
    using fit r(1) by (subst unat_sub) (simp_all add: word_le_nat_alt)
  then have addr: "unat a = unat toc + (?T - ?A - ?r)"
    unfolding a using ok(5) by (subst unat_plus_small) linarith+
  show "toc_ok toc t'" using ok fit r(3) alloc by (simp add: t' toc_ok_def entries_end_def)
  show "block a n \<inter> toc_taken toc t = {}" using fit r(2) by (auto simp: block_def toc_taken_def addr)
  show "block a n \<union> toc_taken toc t \<subseteq> toc_taken toc t'"
    using fit r(2) by (auto simp: block_def toc_taken_def addr t' alloc entries_end_def)
  show "32 dvd unat a" unfolding addr using ok(1-3) r(3) by (simp add: dvd_diff_nat)
  show "toc_nentry t' = toc_nentry t" "toc_total_bytes t' = toc_total_bytes t"
    "unat (toc_allocated_bytes t') = ?A + ?r"
    by (simp_all add: t' alloc)
qed

definition toc_request :: "u64 \<Rightarrow> u64 \<Rightarrow> shm_toc \<Rightarrow> (u64 \<times> shm_toc) option" where
  "toc_request toc n t = (case shm_toc_allocate toc n t of Inl _ \<Rightarrow> None | Inr r \<Rightarrow> Some r)"

interpretation toc_region: region_allocator "toc_request toc" "toc_taken toc" "toc_ok toc" chunk_ok for toc
proof unfold_locales
  fix t n a t'
  assume ok: "toc_ok toc t" "chunk_ok n" and "toc_request toc n t = Some (a, t')"
  then have r: "shm_toc_allocate toc n t = Inr (a, t')" by (simp add: toc_request_def split: sum.splits)
  show "toc_ok toc t'" by (rule allocate_some(1) [OF ok r])
  show "block a n \<inter> toc_taken toc t = {}" by (rule allocate_some(2) [OF ok r])
  show "block a n \<union> toc_taken toc t \<subseteq> toc_taken toc t'" by (rule allocate_some(3) [OF ok r])
qed

text \<open>
  The chunks handed out of a table of contents are pairwise disjoint and meet neither the table's
  header nor its entries nor earlier chunks.
\<close>

theorem toc_chunks_disjoint:
  assumes "toc_ok toc t" "\<forall>n\<in>set ns. chunk_ok n" "alloc_all (toc_request toc) ns t = (bs, t')"
  shows "toc_ok toc t' \<and> disjoint_blocks bs \<and>
    (\<forall>(a, n)\<in>set bs. block a n \<inter> toc_taken toc t = {} \<and> block a n \<subseteq> toc_taken toc t')"
  using toc_region.alloc_all_blocks [OF assms] by blast

text \<open>
  C28: The free space reported is exact: the report never fails its assertion, and a chunk can be
  allocated exactly when its size, rounded up to the buffer alignment, is at most the reported value.
\<close>

theorem freespace_exact:
  assumes "toc_ok toc t"
  shows "\<exists>f. shm_toc_freespace t = Inr f \<and>
    (\<forall>n. unat n + 31 < 2 ^ 64 \<longrightarrow> ((\<exists>r. shm_toc_allocate toc n t = Inr r) = (BUFFERALIGN n \<le> f)))"
proof -
  let ?T = "unat (toc_total_bytes t)" and ?A = "unat (toc_allocated_bytes t)" and ?e = "40 + ucast (toc_nentry t) * 16 :: u64"
  note ok = toc_okD [OF assms]
  let ?E = "round_up 32 (entries_end t)"
  have "entries_end t \<le> ?T - ?A" using ok(4) by linarith
  then have E: "?E \<le> ?T - ?A" "entries_end t \<le> ?E"
    using ok(2,3) round_up_bounds(1) by (simp_all add: round_up_least dvd_diff_nat)
  have "entries_end t + 31 < 2 ^ 64"
    using nentry_bound [of t] by (simp add: entries_end_def)
  then have e: "unat (BUFFERALIGN ?e) = ?E" by (subst unat_aligns(2)) (simp_all add: unat_entries_end)
  have sum: "unat (toc_allocated_bytes t + BUFFERALIGN ?e) = ?A + ?E"
    using E ok(4) e unat_less_64 [of "toc_total_bytes t"] by (subst unat_plus_small) linarith+
  have le: "toc_allocated_bytes t + BUFFERALIGN ?e \<le> toc_total_bytes t"
    using E ok(4) sum by (simp add: word_le_nat_alt)
  let ?f = "toc_total_bytes t - (toc_allocated_bytes t + BUFFERALIGN ?e)"
  have f: "unat ?f = ?T - ?A - ?E" using sum unat_sub [OF le] by simp
  have "(entries_end t + ?A + round_up 32 (unat n) \<le> ?T) = (round_up 32 (unat n) \<le> ?T - ?A - ?E)" for n :: u64
  proof
    assume "entries_end t + ?A + round_up 32 (unat n) \<le> ?T"
    then have "?E \<le> ?T - ?A - round_up 32 (unat n)"
      using ok(2,3) by (intro round_up_least) (simp_all add: dvd_diff_nat)
    then show "round_up 32 (unat n) \<le> ?T - ?A - ?E" using \<open>entries_end t + ?A + round_up 32 (unat n) \<le> ?T\<close> by linarith
  qed (use E ok(4) in linarith)
  then have "(\<exists>r. shm_toc_allocate toc n t = Inr r) = (BUFFERALIGN n \<le> ?f)" if "unat n + 31 < 2 ^ 64" for n
    using that f by (simp add: allocate_eq [OF assms] chunk_ok_def word_le_nat_alt unat_aligns)
  moreover have "shm_toc_freespace t = Inr ?f" using le by (simp add: shm_toc_freespace_def Let_def)
  ultimately show ?thesis by blast
qed

section \<open>Entries\<close>

lemma toc_search_cong:
  "(\<And>j. i \<le> j \<Longrightarrow> j < i + n \<Longrightarrow> rd j = rd' j) \<Longrightarrow> toc_search rd k i n = toc_search rd' k i n"
  by (induction n arbitrary: i) simp_all

lemma toc_search_snoc:
  "toc_search rd k i (Suc n) =
   (case toc_search rd k i n of Some off \<Rightarrow> Some off
    | None \<Rightarrow> if key (rd (i + n)) = k then Some (offset (rd (i + n))) else None)"
proof (induction n arbitrary: i)
  case (Suc n)
  have "toc_search rd k i (Suc (Suc n)) =
    (if key (rd i) = k then Some (offset (rd i)) else toc_search rd k (Suc i) (Suc n))" by simp
  also note Suc.IH
  finally show ?case by (simp only: toc_search.simps(2) add_Suc add_Suc_right) simp
qed simp

lemma nentry_next:
  assumes "unat (toc_nentry t) < 4294967295"
  shows "unat (toc_nentry t + 1) = Suc (unat (toc_nentry t))"
proof -
  have "unat (toc_nentry t + 1) = (unat (toc_nentry t) + 1) mod 2 ^ 32"
    by (simp only: unat_word_ariths) simp
  then show ?thesis using assms by simp
qed

lemma search_after_insert:
  assumes "unat (toc_nentry t) < 4294967295"
  shows "toc_search (toc_entry (publish_entry (fill_entry k off t))) k' 0 (unat (toc_nentry (publish_entry (fill_entry k off t)))) =
    (case toc_search (toc_entry t) k' 0 (unat (toc_nentry t)) of Some o' \<Rightarrow> Some o'
     | None \<Rightarrow> if k = k' then Some off else None)"
proof -
  note n = nentry_next [OF assms]
  have "toc_search ((toc_entry t)(unat (toc_nentry t) := e)) k' 0 (unat (toc_nentry t)) =
    toc_search (toc_entry t) k' 0 (unat (toc_nentry t))" for e
    by (rule toc_search_cong) simp
  then show ?thesis
    by (simp add: publish_entry_def fill_entry_def n toc_search_snoc del: toc_search.simps split: option.splits)
qed

text \<open>
  C27: After an insertion, a lookup by a process that has the segment at any address finds the
  inserted chunk at its place in that process's mapping, unless the key was there before; every other
  lookup is unchanged.
\<close>

theorem toc_insert_lookup:
  assumes "shm_toc_insert toc k address t = Inr t'"
  shows "shm_toc_lookup toc' k' noError t' =
    (if shm_toc_lookup toc' k' True t = Inr None \<and> k' = k then Inr (Some (toc' + (address - toc)))
     else shm_toc_lookup toc' k' noError t)"
proof -
  have t': "t' = publish_entry (fill_entry k (address - toc) t)" "unat (toc_nentry t) < 4294967295"
    using assms by (auto simp: shm_toc_insert_def Let_def split: if_splits)
  show ?thesis unfolding shm_toc_lookup_def t'(1) search_after_insert [OF t'(2)]
    by (auto split: option.splits)
qed

text \<open>Steps of other processes during a lookup: the two writes of an insertion, and an allocation.\<close>

inductive toc_write :: "shm_toc \<Rightarrow> shm_toc \<Rightarrow> bool" where
  write_fill: "toc_write t (fill_entry k off t)"
| write_publish: "unat (toc_nentry t) < 4294967295 \<Longrightarrow> toc_write t (publish_entry t)"
| write_allocate: "shm_toc_allocate toc n t = Inr (a, t') \<Longrightarrow> toc_write t t'"

inductive_cases toc_writeE: "toc_write t t'"

lemma toc_write_keeps:
  assumes "toc_write t t'"
  shows "toc_nentry t \<le> toc_nentry t' \<and> (\<forall>i < unat (toc_nentry t). toc_entry t' i = toc_entry t i)"
  using assms
proof cases
  case write_publish
  note nentry_next [OF write_publish(2)]
  then show ?thesis using write_publish(1) by (simp add: publish_entry_def word_le_nat_alt)
qed (auto simp: fill_entry_def shm_toc_allocate_def Let_def split: if_splits)

lemma toc_writes_keep:
  assumes "toc_write\<^sup>*\<^sup>* t t'"
  shows "toc_nentry t \<le> toc_nentry t' \<and> (\<forall>i < unat (toc_nentry t). toc_entry t' i = toc_entry t i)"
  using assms
proof (induction rule: rtranclp_induct)
  case (step t1 t2)
  then show ?case using toc_write_keeps [OF step(2)] by (auto simp: word_le_nat_alt)
qed simp

text \<open>
  C26: A lookup needs no lock.  It reads the number of entries first and then entry after entry; when
  other processes insert and allocate between any two of its reads, its result is that of a lookup
  in the state in which it read the number.
\<close>

theorem lookup_needs_no_lock:
  assumes "\<And>i. toc_write\<^sup>*\<^sup>* t (seen i)"
  shows "toc_search (\<lambda>i. toc_entry (seen i) i) k 0 (unat (toc_nentry t)) =
    toc_search (toc_entry t) k 0 (unat (toc_nentry t))"
  using toc_writes_keep [OF assms] by (intro toc_search_cong) simp

section \<open>Estimates\<close>

datatype toc_op = TocAllocate u64 | TocInsert u64 u64

text \<open>What the process that sets up the segment does, until an error.\<close>

fun run_toc :: "u64 \<Rightarrow> toc_op list \<Rightarrow> shm_toc \<Rightarrow> pg_error + shm_toc" where
  "run_toc toc [] t = Inr t"
| "run_toc toc (TocAllocate n # ops) t =
     (case shm_toc_allocate toc n t of Inl e \<Rightarrow> Inl e | Inr (_, t') \<Rightarrow> run_toc toc ops t')"
| "run_toc toc (TocInsert k a # ops) t =
     (case shm_toc_insert toc k a t of Inl e \<Rightarrow> Inl e | Inr t' \<Rightarrow> run_toc toc ops t')"

fun op_chunks :: "toc_op list \<Rightarrow> u64 list" where
  "op_chunks [] = []"
| "op_chunks (TocAllocate n # ops) = n # op_chunks ops"
| "op_chunks (TocInsert _ _ # ops) = op_chunks ops"

fun op_keys :: "toc_op list \<Rightarrow> nat" where
  "op_keys [] = 0"
| "op_keys (TocAllocate _ # ops) = op_keys ops"
| "op_keys (TocInsert _ _ # ops) = Suc (op_keys ops)"

text \<open>The addresses that are registered are inside the segment.\<close>

fun op_inside :: "u64 \<Rightarrow> nat \<Rightarrow> toc_op \<Rightarrow> bool" where
  "op_inside toc size_of_segment (TocAllocate _) = True"
| "op_inside toc size_of_segment (TocInsert _ a) = (unat toc < unat a \<and> unat a < unat toc + size_of_segment)"

definition chunk_bytes :: "u64 list \<Rightarrow> nat" where
  "chunk_bytes ns = sum_list (map (\<lambda>n. round_up 32 (unat n)) ns)"

lemma insert_ok:
  assumes "toc_ok toc t" "entries_end t + 16 + unat (toc_allocated_bytes t) \<le> unat (toc_total_bytes t)"
    "unat (toc_nentry t) < 4294967295" "op_inside toc (unat (toc_total_bytes t)) (TocInsert k a)"
  shows "\<exists>t'. shm_toc_insert toc k a t = Inr t' \<and> toc_ok toc t' \<and> entries_end t' = entries_end t + 16 \<and>
    unat (toc_nentry t') = Suc (unat (toc_nentry t)) \<and> toc_total_bytes t' = toc_total_bytes t \<and>
    toc_allocated_bytes t' = toc_allocated_bytes t"
proof -
  let ?t = "publish_entry (fill_entry k (a - toc) t)"
  note n = nentry_next [OF assms(3)]
  have "unat (a - toc) = unat a - unat toc" using assms(4) by (intro unat_sub) (simp add: word_le_nat_alt)
  then have "a - toc < toc_total_bytes t" using assms(4) by (simp add: word_less_nat_alt) linarith
  moreover have "\<not> (toc_total_bytes t < toc_bytes t + 16 \<or> toc_bytes t + 16 < toc_bytes t)"
    using assms(2) by (simp only: sum_exceeds unat_toc_bytes [OF assms(1)]) simp
  ultimately have "shm_toc_insert toc k a t = Inr ?t"
    using assms(3,4) by (simp add: shm_toc_insert_def Let_def word_less_nat_alt)
  moreover have "toc_ok toc ?t"
    using assms(1,2) by (simp add: toc_ok_def publish_entry_def fill_entry_def entries_end_def n)
  ultimately show ?thesis by (simp add: publish_entry_def fill_entry_def entries_end_def n)
qed

lemma run_toc_fits:
  assumes "toc_ok toc t" "\<forall>n\<in>set (op_chunks ops). chunk_ok n"
    "entries_end t + 16 * op_keys ops + unat (toc_allocated_bytes t) + chunk_bytes (op_chunks ops) \<le> unat (toc_total_bytes t)"
    "unat (toc_nentry t) + op_keys ops \<le> 4294967295" "\<forall>p\<in>set ops. op_inside toc (unat (toc_total_bytes t)) p"
  shows "\<exists>t'. run_toc toc ops t = Inr t' \<and> toc_ok toc t'"
  using assms
proof (induction ops arbitrary: t)
  case (Cons p ops)
  show ?case
  proof (cases p)
    case (TocAllocate n)
    have n: "chunk_ok n" using Cons.prems(2) TocAllocate by simp
    have "\<exists>r. shm_toc_allocate toc n t = Inr r"
      using Cons.prems(3) TocAllocate unfolding allocate_eq [OF Cons.prems(1) n] by (simp add: chunk_bytes_def)
    then obtain a t1 where r: "shm_toc_allocate toc n t = Inr (a, t1)" by auto
    note step = allocate_some [OF Cons.prems(1) n r]
    have "\<exists>t'. run_toc toc ops t1 = Inr t' \<and> toc_ok toc t'"
      using Cons.prems(2-5) TocAllocate step(5-7)
      by (intro Cons.IH step(1)) (simp_all add: chunk_bytes_def entries_end_def)
    then show ?thesis using r TocAllocate by simp
  next
    case (TocInsert k a)
    have "\<exists>t1. shm_toc_insert toc k a t = Inr t1 \<and> toc_ok toc t1 \<and> entries_end t1 = entries_end t + 16 \<and>
        unat (toc_nentry t1) = Suc (unat (toc_nentry t)) \<and> toc_total_bytes t1 = toc_total_bytes t \<and>
        toc_allocated_bytes t1 = toc_allocated_bytes t"
      using Cons.prems TocInsert by (intro insert_ok) simp_all
    then obtain t1 where r: "shm_toc_insert toc k a t = Inr t1" "toc_ok toc t1" "entries_end t1 = entries_end t + 16"
      "unat (toc_nentry t1) = Suc (unat (toc_nentry t))" "toc_total_bytes t1 = toc_total_bytes t"
      "toc_allocated_bytes t1 = toc_allocated_bytes t" by blast
    have "\<exists>t'. run_toc toc ops t1 = Inr t' \<and> toc_ok toc t'"
      using Cons.prems(2-5) TocInsert r(3-6) by (intro Cons.IH r(2)) simp_all
    then show ?thesis using r(1) TocInsert by simp
  qed
qed simp

text \<open>The calls of a client that announces its chunks one by one.\<close>

fun estimate_chunks :: "u64 list \<Rightarrow> shm_toc_estimator \<Rightarrow> pg_error + shm_toc_estimator" where
  "estimate_chunks [] e = Inr e"
| "estimate_chunks (n # ns) e = (case shm_toc_estimate_chunk n e of Inl err \<Rightarrow> Inl err | Inr e' \<Rightarrow> estimate_chunks ns e')"

lemma chunk_bytes_Cons: "chunk_bytes (n # ns) = round_up 32 (unat n) + chunk_bytes ns"
  by (simp add: chunk_bytes_def)

lemma chunk_bytes_member: "n \<in> set ns \<Longrightarrow> unat n \<le> chunk_bytes ns"
proof (induction ns)
  case (Cons m ns)
  then show ?case using round_up_bounds(1) [of 32 "unat m"] by (auto simp: chunk_bytes_Cons)
qed simp

lemma chunk_bytes_mset_mono:
  assumes "mset ns \<subseteq># mset ms"
  shows "chunk_bytes ns \<le> chunk_bytes ms"
proof -
  have "chunk_bytes xs = sum_mset (image_mset (\<lambda>n. round_up 32 (unat n)) (mset xs))" for xs
    by (simp only: chunk_bytes_def mset_map [symmetric] sum_mset_sum_list)
  moreover obtain rest where "mset ms = mset ns + rest" using assms by (auto simp: mset_subset_eq_exists_conv)
  ultimately show ?thesis by simp
qed

lemma estimate_chunks_eq:
  "unat (space_for_chunks e) + chunk_bytes ns < 2 ^ 63 \<Longrightarrow>
   \<exists>e'. estimate_chunks ns e = Inr e' \<and> number_of_keys e' = number_of_keys e \<and>
     unat (space_for_chunks e') = unat (space_for_chunks e) + chunk_bytes ns"
proof (induction ns arbitrary: e)
  case (Cons n ns)
  have "unat n < 2 ^ 63" using Cons.prems chunk_bytes_member [of n "n # ns"] by simp
  then have n: "unat (BUFFERALIGN n) = round_up 32 (unat n)" by (intro unat_aligns) simp
  let ?e = "e\<lparr>space_for_chunks := space_for_chunks e + BUFFERALIGN n\<rparr>"
  have s: "unat (space_for_chunks e + BUFFERALIGN n) = unat (space_for_chunks e) + round_up 32 (unat n)"
    using Cons.prems n by (subst unat_plus_small) (simp_all add: chunk_bytes_Cons)
  have "shm_toc_estimate_chunk n e = Inr ?e"
    using Cons.prems n by (simp add: shm_toc_estimate_chunk_def add_size_eq chunk_bytes_Cons)
  then show ?case using Cons.IH [of ?e] Cons.prems s by (simp add: chunk_bytes_Cons add.assoc)
qed (simp add: chunk_bytes_def)

lemma estimate_eq:
  assumes "40 + 16 * unat (number_of_keys e) + unat (space_for_chunks e) < 2 ^ 63"
  shows "\<exists>sz. shm_toc_estimate e = Inr sz \<and>
    unat sz = round_up 32 (40 + 16 * unat (number_of_keys e) + unat (space_for_chunks e))"
proof -
  let ?m = "number_of_keys e * 16" and ?c = "space_for_chunks e"
  have m: "unat ?m = unat (number_of_keys e) * 16"
    using assms by (simp only: unat_word_ariths len64) simp
  have a: "unat (40 + ?m) = 40 + 16 * unat (number_of_keys e)"
    using assms m by (subst unat_plus_small) simp_all
  have b: "unat (40 + ?m + ?c) = 40 + 16 * unat (number_of_keys e) + unat ?c"
    using assms a by (subst unat_plus_small) simp_all
  have "mul_size (number_of_keys e) 16 = Inr ?m" "add_size 40 ?m = Inr (40 + ?m)"
    "add_size (40 + ?m) ?c = Inr (40 + ?m + ?c)"
    using assms m a by (simp_all add: mul_size_eq add_size_eq)
  then have "shm_toc_estimate e = Inr (BUFFERALIGN (40 + ?m + ?c))" by (simp add: shm_toc_estimate_def)
  moreover have "unat (BUFFERALIGN (40 + ?m + ?c)) = round_up 32 (unat (40 + ?m + ?c))"
    using assms b by (intro unat_aligns) simp
  ultimately show ?thesis using b by simp
qed

lemma create_ok:
  assumes "32 dvd unat sz" "40 < unat sz" "32 dvd unat toc" "unat toc + unat sz < 2 ^ 64"
  shows "\<exists>t. shm_toc_create magic mem sz = Inr t \<and> toc_ok toc t \<and> toc_total_bytes t = sz \<and>
    toc_allocated_bytes t = 0 \<and> toc_nentry t = 0"
proof -
  obtain q where q: "unat sz = 32 * q" using assms(1) by (rule dvdE)
  have "unat (BUFFERALIGN_DOWN sz) = unat sz" unfolding unat_aligns(4) q by (simp add: round_down_def)
  then have "BUFFERALIGN_DOWN sz = sz" by (simp only: word_unat_eq_iff)
  then show ?thesis using assms by (simp add: shm_toc_create_def word_less_nat_alt toc_ok_def entries_end_def)
qed

text \<open>
  C25: The estimate is sufficient: a segment of the estimated size has room for all announced chunks and
  keys, whatever the order in which the chunks are allocated and the keys inserted.
\<close>

theorem toc_estimate_sufficient:
  assumes "40 + 16 * unat nkeys + chunk_bytes cs < 2 ^ 63" "unat nkeys \<le> 4294967295"
    "mset (op_chunks ops) \<subseteq># mset cs" "op_keys ops \<le> unat nkeys" "32 dvd unat toc"
    "unat toc + round_up 32 (40 + 16 * unat nkeys + chunk_bytes cs) < 2 ^ 64"
    "\<forall>p\<in>set ops. op_inside toc (round_up 32 (40 + 16 * unat nkeys + chunk_bytes cs)) p"
  shows "\<exists>e e' sz t t'. estimate_chunks cs shm_toc_initialize_estimator = Inr e \<and>
    shm_toc_estimate_keys nkeys e = Inr e' \<and> shm_toc_estimate e' = Inr sz \<and>
    shm_toc_create magic mem sz = Inr t \<and> run_toc toc ops t = Inr t' \<and> toc_ok toc t'"
proof -
  let ?need = "40 + 16 * unat nkeys + chunk_bytes cs"
  obtain e where e: "estimate_chunks cs shm_toc_initialize_estimator = Inr e" "number_of_keys e = 0"
    "unat (space_for_chunks e) = chunk_bytes cs"
    using estimate_chunks_eq [of shm_toc_initialize_estimator cs] assms(1) by (auto simp: shm_toc_initialize_estimator_def)
  have k: "shm_toc_estimate_keys nkeys e = Inr (e\<lparr>number_of_keys := nkeys\<rparr>)"
    using e(2) assms(1) by (simp add: shm_toc_estimate_keys_def add_size_eq)
  obtain sz where sz: "shm_toc_estimate (e\<lparr>number_of_keys := nkeys\<rparr>) = Inr sz" "unat sz = round_up 32 ?need"
    using estimate_eq [of "e\<lparr>number_of_keys := nkeys\<rparr>"] assms(1) e(3) by auto
  have need: "?need \<le> unat sz" "32 dvd unat sz" using sz(2) round_up_bounds(1) [of 32 ?need] by simp_all
  obtain q where q: "unat sz = 32 * q" using need(2) by (rule dvdE)
  have "40 \<le> unat sz" using need(1) by linarith
  then have big: "40 < unat sz" unfolding q by presburger
  obtain t where t: "shm_toc_create magic mem sz = Inr t" "toc_ok toc t" "toc_total_bytes t = sz"
    "toc_allocated_bytes t = 0" "toc_nentry t = 0"
    using create_ok [OF need(2) big assms(5)] assms(6) sz(2) by auto
  have "chunk_ok n" if "n \<in> set (op_chunks ops)" for n
    using chunk_bytes_member [OF that] chunk_bytes_mset_mono [OF assms(3)] assms(1) by (simp add: chunk_ok_def)
  then have "\<exists>t'. run_toc toc ops t = Inr t' \<and> toc_ok toc t'"
    using t need(1) assms(2,4,7) sz(2) chunk_bytes_mset_mono [OF assms(3)]
    by (intro run_toc_fits) (simp_all add: entries_end_def)
  then show ?thesis using e(1) k sz(1) t(1) by blast
qed

section \<open>Witnesses\<close>

definition demo_toc :: shm_toc where
  "demo_toc = \<lparr>toc_magic = 7, toc_total_bytes = 1024, toc_allocated_bytes = 0, toc_nentry = 1,
    toc_entry = (\<lambda>_. \<lparr>key = 3, offset = 992\<rparr>)\<rparr>"

lemma demo_toc_ok: "toc_ok 0x10000 demo_toc"
  by (simp add: toc_ok_def demo_toc_def entries_end_def)

theorem toc_chunks_disjoint_witness:
  "fst (alloc_all (toc_request 0x10000) [100, 50] demo_toc) = [(0x10380, 100), (0x10340, 50)] \<and>
   disjoint_blocks [(0x10380, 100), (0x10340, 50)]"
proof -
  have run: "fst (alloc_all (toc_request 0x10000) [100, 50] demo_toc) = [(0x10380, 100), (0x10340, 50)]"
    by (simp add: demo_toc_def toc_request_def shm_toc_allocate_def Let_def toc_bytes_def BUFFERALIGN_def TYPEALIGN_def)
  obtain bs t' where r: "alloc_all (toc_request 0x10000) [100, 50] demo_toc = (bs, t')" by fastforce
  have "disjoint_blocks bs" using toc_chunks_disjoint [OF demo_toc_ok _ r] by (simp add: chunk_ok_def)
  then show ?thesis using run r by simp
qed

theorem freespace_exact_witness:
  "\<exists>f. shm_toc_freespace demo_toc = Inr f \<and> f = 960"
  using freespace_exact [OF demo_toc_ok]
  by (auto simp: shm_toc_freespace_def demo_toc_def Let_def BUFFERALIGN_def TYPEALIGN_def)

theorem toc_insert_lookup_witness:
  "\<exists>t'. shm_toc_insert 0x10000 5 0x10380 demo_toc = Inr t' \<and>
     shm_toc_lookup 0x90000 5 False t' = Inr (Some 0x90380)"
proof -
  let ?t = "publish_entry (fill_entry 5 0x380 demo_toc)"
  have r: "shm_toc_insert 0x10000 5 0x10380 demo_toc = Inr ?t"
    by (simp add: shm_toc_insert_def Let_def toc_bytes_def demo_toc_def)
  have "shm_toc_lookup 0x90000 5 True demo_toc = Inr None"
    by (simp add: shm_toc_lookup_def demo_toc_def)
  then show ?thesis using r toc_insert_lookup [OF r, of "0x90000" 5 False] by simp
qed

theorem lookup_needs_no_lock_witness:
  "toc_search (\<lambda>i. toc_entry (if i = 0 then demo_toc else fill_entry 3 8 demo_toc) i) 3 0 (unat (toc_nentry demo_toc)) = Some 992"
proof -
  have "toc_write\<^sup>*\<^sup>* demo_toc (if i = 0 then demo_toc else fill_entry 3 8 demo_toc)" for i :: nat
    by (auto intro: r_into_rtranclp write_fill)
  from lookup_needs_no_lock [of demo_toc "\<lambda>i. if i = 0 then demo_toc else fill_entry 3 8 demo_toc", OF this]
  show ?thesis by (simp add: demo_toc_def)
qed

theorem toc_estimate_sufficient_witness:
  "\<exists>e e' sz t t'. estimate_chunks [100, 50] shm_toc_initialize_estimator = Inr e \<and>
    shm_toc_estimate_keys 2 e = Inr e' \<and> shm_toc_estimate e' = Inr sz \<and>
    shm_toc_create 7 (\<lambda>_. \<lparr>key = 0, offset = 0\<rparr>) sz = Inr t \<and>
    run_toc 0x10000 [TocAllocate 50, TocInsert 1 0x100a0, TocAllocate 100, TocInsert 2 0x10020] t = Inr t' \<and>
    toc_ok 0x10000 t'"
  by (rule toc_estimate_sufficient) (simp_all add: chunk_bytes_def round_up_def round_down_def add_mset_commute)

end
