(* ===== verification/Sysv_Ipc.thy ===== *)
theory Sysv_Ipc
  imports Shmem_Alloc
begin

text \<open>
  System V shared memory as the calls of \<^verbatim>\<open>sysv_shmem.c\<close> see it: the segments of the system and the
  attachments of the calling process.  A pointer to an attached segment is represented by the
  segment's id.  The behaviour is that of shmget(2), shmat(2), shmdt(2) and shmctl(2) on Linux.
\<close>

datatype errno = EINVAL | EACCES | EEXIST | EIDRM | ENOMEM | ENOSPC | EPERM

text \<open>
  \<open>accessible\<close> says whether the calling process may read and write the segment, \<open>owned\<close> whether it may
  remove it.  A segment that is removed while attached loses its key and is marked \<open>dest\<close>.
\<close>

record seg =
  seg_id :: nat
  seg_key :: u32
  seg_size :: u64
  nattch :: nat
  dest :: bool
  accessible :: bool
  owned :: bool
  seg_hdr :: PGShmemHeader

text \<open>
  \<open>shm_refuse\<close> is the error of a system without room for a new segment, \<open>at_refuse\<close> that of a process
  that cannot attach.
\<close>

record ipc =
  segs :: "seg list"
  next_id :: nat
  attached :: "nat list"
  shm_min :: u64
  shm_max :: u64
  shm_refuse :: "errno option"
  at_refuse :: "errno option"

definition zero_hdr :: PGShmemHeader where
  "zero_hdr = \<lparr>magic = 0, creatorPID = 0, totalsize = 0, freeoffset = 0, dsm_control = 0, hdr_index = None,
     device = 0, inode = 0\<rparr>"

text \<open>The key 0 is \<^verbatim>\<open>IPC_PRIVATE\<close>, which no segment can be found by.\<close>

definition by_key :: "u32 \<Rightarrow> ipc \<Rightarrow> seg option" where
  "by_key k p = (if k = 0 then None else List.find (\<lambda>s. seg_key s = k) (segs p))"

definition by_id :: "nat \<Rightarrow> ipc \<Rightarrow> seg option" where
  "by_id i p = List.find (\<lambda>s. seg_id s = i) (segs p)"

definition on_seg :: "nat \<Rightarrow> (seg \<Rightarrow> seg) \<Rightarrow> ipc \<Rightarrow> ipc" where
  "on_seg i f p = p\<lparr>segs := map (\<lambda>s. if seg_id s = i then f s else s) (segs p)\<rparr>"

definition drop_dead :: "ipc \<Rightarrow> ipc" where
  "drop_dead p = p\<lparr>segs := filter (\<lambda>s. \<not> (dest s \<and> nattch s = 0)) (segs p)\<rparr>"

text \<open>\<^verbatim>\<open>shmget\<close> with \<^verbatim>\<open>IPC_CREAT | IPC_EXCL\<close>.\<close>

definition shmget_new :: "u32 \<Rightarrow> u64 \<Rightarrow> ipc \<Rightarrow> (errno + nat) \<times> ipc" where
  "shmget_new k sz p =
     (if by_key k p \<noteq> None then (Inl EEXIST, p)
      else if sz < shm_min p \<or> sz > shm_max p then (Inl EINVAL, p)
      else
        (case shm_refuse p of
           Some e \<Rightarrow> (Inl e, p)
         | None \<Rightarrow>
             (Inr (next_id p),
              p\<lparr>segs := \<lparr>seg_id = next_id p, seg_key = k, seg_size = sz, nattch = 0, dest = False,
                  accessible = True, owned = True, seg_hdr = zero_hdr\<rparr> # segs p,
                next_id := Suc (next_id p)\<rparr>)))"

text \<open>\<^verbatim>\<open>shmget\<close> of an existing segment.\<close>

definition shmget_old :: "u32 \<Rightarrow> u64 \<Rightarrow> ipc \<Rightarrow> errno + nat" where
  "shmget_old k sz p =
     (case by_key k p of
        None \<Rightarrow> Inl EINVAL
      | Some s \<Rightarrow>
          if \<not> accessible s then Inl EACCES
          else if seg_size s < sz then Inl EINVAL
          else Inr (seg_id s))"

text \<open>\<^verbatim>\<open>shmctl\<close> with \<^verbatim>\<open>IPC_STAT\<close>, for the number of attachments.\<close>

definition shmctl_stat :: "nat \<Rightarrow> ipc \<Rightarrow> errno + nat" where
  "shmctl_stat i p =
     (case by_id i p of
        None \<Rightarrow> Inl EINVAL
      | Some s \<Rightarrow> if \<not> accessible s then Inl EACCES else Inr (nattch s))"

definition shmat :: "nat \<Rightarrow> ipc \<Rightarrow> (errno + nat) \<times> ipc" where
  "shmat i p =
     (case by_id i p of
        None \<Rightarrow> (Inl EINVAL, p)
      | Some s \<Rightarrow>
          if \<not> accessible s then (Inl EACCES, p)
          else
            (case at_refuse p of
               Some e \<Rightarrow> (Inl e, p)
             | None \<Rightarrow> (Inr i, on_seg i (\<lambda>s. s\<lparr>nattch := Suc (nattch s)\<rparr>) (p\<lparr>attached := i # attached p\<rparr>))))"

definition shmdt :: "nat \<Rightarrow> ipc \<Rightarrow> (errno + unit) \<times> ipc" where
  "shmdt i p =
     (if i \<in> set (attached p) then
        (Inr (), drop_dead (on_seg i (\<lambda>s. s\<lparr>nattch := nattch s - 1\<rparr>) (p\<lparr>attached := remove1 i (attached p)\<rparr>)))
      else (Inl EINVAL, p))"

definition shmctl_rmid :: "nat \<Rightarrow> ipc \<Rightarrow> (errno + unit) \<times> ipc" where
  "shmctl_rmid i p =
     (case by_id i p of
        None \<Rightarrow> (Inl EINVAL, p)
      | Some s \<Rightarrow>
          if \<not> owned s then (Inl EPERM, p)
          else (Inr (), drop_dead (on_seg i (\<lambda>s. s\<lparr>dest := True, seg_key := 0\<rparr>) p)))"

text \<open>The end of a process detaches what it still has attached.\<close>

definition ipc_exit :: "ipc \<Rightarrow> ipc" where
  "ipc_exit p = foldl (\<lambda>q i. snd (shmdt i q)) p (attached p)"

text \<open>What the system guarantees of its segments.\<close>

definition ipc_ok :: "ipc \<Rightarrow> bool" where
  "ipc_ok p \<longleftrightarrow> distinct (map seg_id (segs p)) \<and>
     (\<forall>s\<in>set (segs p). seg_id s < next_id p \<and> (dest s \<longrightarrow> 0 < nattch s) \<and>
        (\<forall>t\<in>set (segs p). seg_key s = seg_key t \<and> seg_key s \<noteq> 0 \<longrightarrow> s = t)) \<and>
     shm_refuse p \<in> {None, Some ENOMEM, Some ENOSPC} \<and> at_refuse p \<in> {None, Some ENOMEM}"

section \<open>Laws\<close>

lemma find_Some_unique:
  assumes "distinct (map f xs)" "x \<in> set xs"
  shows "List.find (\<lambda>y. f y = f x) xs = Some x"
  using assms by (induction xs) (auto simp: image_iff)

lemma same_key:
  "ipc_ok p \<Longrightarrow> s \<in> set (segs p) \<Longrightarrow> t \<in> set (segs p) \<Longrightarrow> seg_key s = seg_key t \<Longrightarrow> seg_key s \<noteq> 0 \<Longrightarrow> s = t"
  unfolding ipc_ok_def by blast

lemma by_id_Some: "by_id i p = Some s \<Longrightarrow> s \<in> set (segs p) \<and> seg_id s = i"
  by (auto simp: by_id_def find_Some_iff)

lemma by_key_Some: "by_key k p = Some s \<Longrightarrow> s \<in> set (segs p) \<and> seg_key s = k \<and> k \<noteq> 0"
  by (auto simp: by_key_def find_Some_iff split: if_splits)

lemma by_id_member: "ipc_ok p \<Longrightarrow> s \<in> set (segs p) \<Longrightarrow> by_id (seg_id s) p = Some s"
  by (simp add: by_id_def ipc_ok_def find_Some_unique)

lemma by_key_None: "by_key k p = None \<longleftrightarrow> k = 0 \<or> (\<forall>s\<in>set (segs p). seg_key s \<noteq> k)"
  by (auto simp: by_key_def find_None_iff)

lemma segs_alive: "ipc_ok p \<Longrightarrow> filter (\<lambda>s. \<not> (dest s \<and> nattch s = 0)) (segs p) = segs p"
  by (rule filter_True) (auto simp: ipc_ok_def)

text \<open>Attaching and detaching a segment leaves the system as it was.\<close>

lemma shmat_shmdt:
  assumes "ipc_ok p" "shmat i p = (Inr a, q)"
  shows "shmdt a q = (Inr (), p)"
proof -
  have q: "q = on_seg i (\<lambda>s. s\<lparr>nattch := Suc (nattch s)\<rparr>) (p\<lparr>attached := i # attached p\<rparr>)" "a = i"
    using assms(2) by (auto simp: shmat_def split: option.splits if_splits)
  have "map ((\<lambda>s. if seg_id s = i then s\<lparr>nattch := nattch s - Suc 0\<rparr> else s) \<circ>
      (\<lambda>s. if seg_id s = i then s\<lparr>nattch := Suc (nattch s)\<rparr> else s)) (segs p) = segs p"
    by (rule map_idI) simp
  then show ?thesis using segs_alive [OF assms(1)]
    by (simp add: q shmdt_def on_seg_def drop_dead_def)
qed

lemma other_segs: "\<forall>s\<in>set xs. seg_id s \<noteq> i \<Longrightarrow> map (\<lambda>s. if seg_id s = i then f s else s) xs = xs"
  by (rule map_idI) simp

text \<open>A segment that is removed while only the caller has it attached is gone after the caller's detach.\<close>

lemma attach_remove_detach:
  assumes "ipc_ok p" "by_id i p = Some s" "nattch s = 0" "shmat i p = (Inr a, q)" "shmctl_rmid i q = (Inr (), r)"
  shows "shmdt a r = (Inr (), p\<lparr>segs := filter (\<lambda>s. seg_id s \<noteq> i) (segs p)\<rparr>)"
proof -
  have q: "q = on_seg i (\<lambda>s. s\<lparr>nattch := Suc (nattch s)\<rparr>) (p\<lparr>attached := i # attached p\<rparr>)" "a = i"
    using assms(4) by (auto simp: shmat_def split: option.splits if_splits)
  have r: "r = drop_dead (on_seg i (\<lambda>s. s\<lparr>dest := True, seg_key := 0\<rparr>) q)"
    using assms(5) by (auto simp: shmctl_rmid_def split: option.splits if_splits)
  have one: "t \<in> set (segs p) \<Longrightarrow> seg_id t = i \<Longrightarrow> nattch t = 0" for t
    using by_id_member [OF assms(1)] assms(2,3) by fastforce
  let ?up = "\<lambda>s. if seg_id s = i then s\<lparr>nattch := Suc (nattch s), dest := True, seg_key := 0\<rparr> else s"
  let ?down = "\<lambda>s. if seg_id s = i then s\<lparr>nattch := nattch s - Suc 0\<rparr> else s"
  have up: "segs r = map ?up (segs p)"
  proof -
    have "segs r = filter (\<lambda>s. \<not> (dest s \<and> nattch s = 0)) (map ?up (segs p))"
      by (auto simp: r q on_seg_def drop_dead_def intro!: arg_cong [where f = "filter _"])
    also have "\<dots> = map ?up (segs p)" using assms(1) by (intro filter_True) (auto simp: ipc_ok_def)
    finally show ?thesis .
  qed
  have gone: "filter (\<lambda>s. \<not> (dest s \<and> nattch s = 0)) (map ?down (map ?up xs)) = filter (\<lambda>s. seg_id s \<noteq> i) xs"
    if "\<forall>t\<in>set xs. (dest t \<longrightarrow> 0 < nattch t) \<and> (seg_id t = i \<longrightarrow> nattch t = 0)" for xs
    using that by (induction xs) auto
  have "\<forall>t\<in>set (segs p). (dest t \<longrightarrow> 0 < nattch t) \<and> (seg_id t = i \<longrightarrow> nattch t = 0)"
    using assms(1) one by (auto simp: ipc_ok_def)
  from gone [OF this] have "filter (\<lambda>s. \<not> (dest s \<and> nattch s = 0)) (map ?down (segs r)) = filter (\<lambda>s. seg_id s \<noteq> i) (segs p)"
    by (simp only: up)
  moreover have "r\<lparr>attached := attached p, segs := xs\<rparr> = p\<lparr>segs := xs\<rparr>" "attached r = i # attached p" for xs
    by (simp_all add: r q on_seg_def drop_dead_def)
  ultimately show ?thesis by (simp add: q(2) shmdt_def on_seg_def drop_dead_def)
qed

text \<open>A new segment is known to nobody else; detaching and removing it undoes its creation.\<close>

lemma shmget_new_Inr:
  assumes "shmget_new k sz p = (Inr i, q)"
  shows "by_key k p = None" "i = next_id p" "q = p\<lparr>segs := \<lparr>seg_id = next_id p, seg_key = k, seg_size = sz, nattch = 0,
    dest = False, accessible = True, owned = True, seg_hdr = zero_hdr\<rparr> # segs p, next_id := Suc (next_id p)\<rparr>"
  using assms by (auto simp: shmget_new_def split: if_splits option.splits)

lemma ipc_ok_fresh: "ipc_ok p \<Longrightarrow> \<forall>s\<in>set (segs p). seg_id s \<noteq> next_id p"
  by (auto simp: ipc_ok_def)

lemma new_remove:
  assumes "ipc_ok p" "shmget_new k sz p = (Inr i, q)"
  shows "shmctl_rmid i q = (Inr (), p\<lparr>next_id := Suc (next_id p)\<rparr>)"
  using segs_alive [OF assms(1)] ipc_ok_fresh [OF assms(1)] shmget_new_Inr [OF assms(2)]
  by (simp add: shmctl_rmid_def by_id_def on_seg_def drop_dead_def other_segs cong: if_cong)

lemma new_attach_release:
  assumes "ipc_ok p" "shmget_new k sz p = (Inr i, q)" "shmat i q = (Inr a, r)"
  shows "a = i" "fst (shmdt i (on_seg i (\<lambda>s. s\<lparr>seg_hdr := h\<rparr>) r)) = Inr ()"
    "shmctl_rmid i (snd (shmdt i (on_seg i (\<lambda>s. s\<lparr>seg_hdr := h\<rparr>) r))) = (Inr (), p\<lparr>next_id := Suc (next_id p)\<rparr>)"
    "on_seg i (\<lambda>s. s\<lparr>seg_hdr := h\<rparr>) r = p\<lparr>segs := \<lparr>seg_id = i, seg_key = k, seg_size = sz, nattch = 1, dest = False,
      accessible = True, owned = True, seg_hdr = h\<rparr> # segs p, next_id := Suc (next_id p), attached := i # attached p\<rparr>"
proof -
  have r: "r = on_seg i (\<lambda>s. s\<lparr>nattch := Suc (nattch s)\<rparr>) (q\<lparr>attached := i # attached q\<rparr>)" "a = i"
    using assms(3) by (auto simp: shmat_def split: option.splits if_splits)
  note new = shmget_new_Inr [OF assms(2)] ipc_ok_fresh [OF assms(1)]
  show "a = i" by (rule r)
  show full: "on_seg i (\<lambda>s. s\<lparr>seg_hdr := h\<rparr>) r = p\<lparr>segs := \<lparr>seg_id = i, seg_key = k, seg_size = sz, nattch = 1, dest = False,
      accessible = True, owned = True, seg_hdr = h\<rparr> # segs p, next_id := Suc (next_id p), attached := i # attached p\<rparr>"
    using new by (simp add: r on_seg_def other_segs)
  show "fst (shmdt i (on_seg i (\<lambda>s. s\<lparr>seg_hdr := h\<rparr>) r)) = Inr ()" unfolding full by (simp add: shmdt_def)
  show "shmctl_rmid i (snd (shmdt i (on_seg i (\<lambda>s. s\<lparr>seg_hdr := h\<rparr>) r))) = (Inr (), p\<lparr>next_id := Suc (next_id p)\<rparr>)"
    unfolding full using new segs_alive [OF assms(1)]
    by (simp add: shmdt_def shmctl_rmid_def by_id_def on_seg_def drop_dead_def other_segs)
qed

lemma ipc_ok_filter: "ipc_ok p \<Longrightarrow> ipc_ok (p\<lparr>segs := filter P (segs p)\<rparr>)"
  by (auto simp: ipc_ok_def distinct_map_filter)

text \<open>A key is free within as many steps as there are segments.\<close>

lemma free_key:
  assumes "length (segs p) < 2 ^ 32"
  shows "\<exists>j\<le>length (segs p). by_key (k + of_nat j) p = None"
proof (rule ccontr)
  let ?n = "length (segs p)" and ?f = "\<lambda>j. k + of_nat j :: u32"
  assume "\<not> ?thesis"
  then have "?f ` {..?n} \<subseteq> seg_key ` set (segs p)" by (force simp: by_key_None)
  then have "card (?f ` {..?n}) \<le> card (seg_key ` set (segs p))" by (simp add: card_mono)
  also have "\<dots> \<le> ?n" using card_image_le [of "set (segs p)" seg_key] card_length [of "segs p"] by simp
  also have "?n < card (?f ` {..?n})"
  proof -
    have "inj_on ?f {..?n}"
    proof (rule inj_onI)
      fix i j assume ij: "i \<in> {..?n}" "j \<in> {..?n}" "?f i = ?f j"
      then have "(of_nat i :: u32) = of_nat j" by simp
      then have "unat (of_nat i :: u32) = unat (of_nat j :: u32)" by simp
      moreover have "i < 2 ^ 32" "j < 2 ^ 32" using ij assms by simp_all
      ultimately show "i = j" by (simp add: unsigned_of_nat take_bit_nat_eq_self)
    qed
    then show ?thesis by (simp add: card_image)
  qed
  finally show False by simp
qed

end
