(* ===== verification/Sysv_Shmem.thy ===== *)
theory Sysv_Shmem
  imports Sysv_Ipc C_Numbers
begin

text \<open>
  Creation of PostgreSQL's shared memory at start-up, \<^verbatim>\<open>port/sysv_shmem.c\<close>, as it is compiled on
  Linux: the small System V segment that protects the data directory, the anonymous mapping that
  holds the data, and the branch that asks the file-based memory manager for it.  The operating
  system's answers that are not about System V segments are fields of \<open>pg_env\<close>.
\<close>

datatype IpcMemoryState =
  SHMSTATE_ANALYSIS_FAILURE | SHMSTATE_ATTACHED | SHMSTATE_ENOENT | SHMSTATE_FOREIGN | SHMSTATE_UNATTACHED

datatype HugePagesType = HUGE_PAGES_OFF | HUGE_PAGES_ON | HUGE_PAGES_TRY | HUGE_PAGES_UNKNOWN | FBMM_ON

datatype PGShmemType = SHMEM_TYPE_WINDOWS | SHMEM_TYPE_SYSV | SHMEM_TYPE_MMAP

text \<open>
  The settings, the identity of the data directory (\<open>None\<close> when it cannot be read), the lines of
  \<^verbatim>\<open>/proc/meminfo\<close> and the answers of \<^verbatim>\<open>open\<close>, \<^verbatim>\<open>ftruncate\<close> and \<^verbatim>\<open>mmap\<close> (by size, flags and descriptor).
\<close>

record pg_env =
  huge_pages :: HugePagesType
  shared_memory_type :: PGShmemType
  huge_page_size :: int
  data_dir :: "(u64 \<times> u64) option"
  meminfo :: "string list option"
  open_tmpfile :: "errno + nat"
  ftruncate :: "nat \<Rightarrow> u64 \<Rightarrow> errno option"
  mmap :: "u64 \<Rightarrow> u32 \<Rightarrow> nat option \<Rightarrow> errno + u64"
  my_pid :: int

datatype exit_callback = IpcMemoryDetachCb nat | IpcMemoryDeleteCb nat | AnonymousShmemDetachCb

text \<open>
  A mapping with its size, flags and descriptor.
\<close>

record mapping =
  map_addr :: u64
  map_size :: u64
  map_flags :: u32
  map_fd :: "nat option"

record pg_proc =
  ipc :: ipc
  UsedShmemSegID :: u64
  UsedShmemSegAddr :: "nat option"
  AnonymousShmem :: "u64 option"
  AnonymousShmemSize :: u64
  anon_hdr :: "PGShmemHeader option"
  mappings :: "mapping list"
  on_shmem_exit_list :: "exit_callback list"
  lock_file_line :: "(u32 \<times> nat) option"
  huge_pages_status :: "bool option"
  dsm_cleaned :: "u32 list"

section \<open>Segments\<close>

definition PGShmemMagic :: int where "PGShmemMagic = 679834894"
definition sizeof_PGShmemHeader :: u64 where "sizeof_PGShmemHeader = 56"

definition on_shmem_exit :: "exit_callback \<Rightarrow> pg_proc \<Rightarrow> pg_proc" where
  "on_shmem_exit cb p = p\<lparr>on_shmem_exit_list := cb # on_shmem_exit_list p\<rparr>"

definition key_collision :: "errno \<Rightarrow> bool" where
  "key_collision e \<longleftrightarrow> e = EEXIST \<or> e = EACCES \<or> e = EIDRM"

text \<open>\<open>Inr None\<close> is the quiet failure on a collision.\<close>

definition InternalIpcMemoryCreate :: "u32 \<Rightarrow> u64 \<Rightarrow> pg_proc \<Rightarrow> (pg_error + nat option) \<times> pg_proc" where
  "InternalIpcMemoryCreate memKey sz p =
     (case shmget_new memKey sz (ipc p) of
        (Inl e, k1) \<Rightarrow>
          if key_collision e then (Inr None, p\<lparr>ipc := k1\<rparr>)
          else if e = EINVAL then
            (case shmget_new memKey 0 k1 of
               (Inl e2, k2) \<Rightarrow>
                 if key_collision e2 then (Inr None, p\<lparr>ipc := k2\<rparr>)
                 else (Inl (PgFatal ''could not create shared memory segment''), p\<lparr>ipc := k2\<rparr>)
             | (Inr shmid, k2) \<Rightarrow>
                 (Inl (PgFatal ''could not create shared memory segment''), p\<lparr>ipc := snd (shmctl_rmid shmid k2)\<rparr>))
          else (Inl (PgFatal ''could not create shared memory segment''), p\<lparr>ipc := k1\<rparr>)
      | (Inr shmid, k1) \<Rightarrow>
          (let p1 = on_shmem_exit (IpcMemoryDeleteCb shmid) (p\<lparr>ipc := k1\<rparr>) in
           (case shmat shmid k1 of
              (Inl e, k2) \<Rightarrow> (Inl (PgFatal ''shmat failed''), p1\<lparr>ipc := k2\<rparr>)
            | (Inr memAddress, k2) \<Rightarrow>
                (Inr (Some memAddress),
                 (on_shmem_exit (IpcMemoryDetachCb memAddress) (p1\<lparr>ipc := k2\<rparr>))\<lparr>lock_file_line := Some (memKey, shmid)\<rparr>))))"

definition IpcMemoryDetach :: "nat \<Rightarrow> pg_proc \<Rightarrow> pg_proc" where
  "IpcMemoryDetach shmaddr p = p\<lparr>ipc := snd (shmdt shmaddr (ipc p))\<rparr>"

definition IpcMemoryDelete :: "nat \<Rightarrow> pg_proc \<Rightarrow> pg_proc" where
  "IpcMemoryDelete shmId p = p\<lparr>ipc := snd (shmctl_rmid shmId (ipc p))\<rparr>"

text \<open>The state of the segment and, when it was attached, its address.\<close>

definition PGSharedMemoryAttach ::
  "(u64 \<times> u64) option \<Rightarrow> nat \<Rightarrow> ipc \<Rightarrow> (IpcMemoryState \<times> nat option) \<times> ipc" where
  "PGSharedMemoryAttach dir shmId k =
     (case shmctl_stat shmId k of
        Inl e \<Rightarrow>
          ((if e = EINVAL then SHMSTATE_ENOENT
            else if e = EACCES then SHMSTATE_FOREIGN
            else if e = EIDRM then SHMSTATE_ENOENT
            else SHMSTATE_ANALYSIS_FAILURE, None), k)
      | Inr shm_nattch \<Rightarrow>
          (case dir of
             None \<Rightarrow> ((SHMSTATE_ANALYSIS_FAILURE, None), k)
           | Some (st_dev, st_ino) \<Rightarrow>
               (case shmat shmId k of
                  (Inl e, k1) \<Rightarrow>
                    ((if e = EINVAL then SHMSTATE_ENOENT
                      else if e = EACCES then SHMSTATE_FOREIGN
                      else if e = EIDRM then SHMSTATE_ENOENT
                      else SHMSTATE_ANALYSIS_FAILURE, None), k1)
                | (Inr a, k1) \<Rightarrow>
                    (case by_id a k1 of
                       None \<Rightarrow> ((SHMSTATE_ANALYSIS_FAILURE, Some a), k1)
                     | Some s \<Rightarrow>
                         (if magic (seg_hdr s) \<noteq> PGShmemMagic \<or> device (seg_hdr s) \<noteq> st_dev \<or> inode (seg_hdr s) \<noteq> st_ino
                          then ((SHMSTATE_FOREIGN, Some a), k1)
                          else ((if shm_nattch = 0 then SHMSTATE_UNATTACHED else SHMSTATE_ATTACHED, Some a), k1))))))"

definition detach_if :: "nat option \<Rightarrow> ipc \<Rightarrow> ipc" where
  "detach_if a k = (case a of None \<Rightarrow> k | Some i \<Rightarrow> snd (shmdt i k))"

definition PGSharedMemoryIsInUse :: "(u64 \<times> u64) option \<Rightarrow> nat \<Rightarrow> ipc \<Rightarrow> bool \<times> ipc" where
  "PGSharedMemoryIsInUse dir id2 k =
     (case PGSharedMemoryAttach dir id2 k of
        ((state, memAddress), k1) \<Rightarrow>
          (case state of
             SHMSTATE_ENOENT \<Rightarrow> False
           | SHMSTATE_FOREIGN \<Rightarrow> False
           | SHMSTATE_UNATTACHED \<Rightarrow> False
           | SHMSTATE_ANALYSIS_FAILURE \<Rightarrow> True
           | SHMSTATE_ATTACHED \<Rightarrow> True, detach_if memAddress k1))"

section \<open>Anonymous memory\<close>

definition MAP_SHARED :: u32 where "MAP_SHARED = 0x01"
definition MAP_ANONYMOUS :: u32 where "MAP_ANONYMOUS = 0x20"
definition MAP_HUGETLB :: u32 where "MAP_HUGETLB = 0x40000"

definition PG_MMAP_FLAGS :: u32 where "PG_MMAP_FLAGS = MAP_SHARED OR MAP_ANONYMOUS"

text \<open>\<^verbatim>\<open>sscanf(buf, "Hugepagesize: %u %c", &sz, &ch)\<close> when it converts both.\<close>

definition scan_hugepagesize :: "string \<Rightarrow> (u32 \<times> char) option" where
  "scan_hugepagesize buf =
     (if take 13 buf = ''Hugepagesize:'' then
        (let t = dropWhile c_isspace (drop 13 buf);
             t1 = (if t \<noteq> [] \<and> (hd t = CHR ''-'' \<or> hd t = CHR ''+'') then tl t else t);
             rest = dropWhile c_isspace (drop (length (take_digits 10 t1)) t1)
         in case (sscanf_u (drop 13 buf), rest) of
              (Some sz, ch # _) \<Rightarrow> Some (sz, ch)
            | _ \<Rightarrow> None)
      else None)"

text \<open>The loop over the lines; 0 when no line has the value in kilobytes.\<close>

fun default_hugepagesize :: "string list \<Rightarrow> u64" where
  "default_hugepagesize [] = 0"
| "default_hugepagesize (buf # bufs) =
     (case scan_hugepagesize buf of
        Some (sz, ch) \<Rightarrow> if ch = CHR ''k'' then ucast sz * 1024 else default_hugepagesize bufs
      | None \<Rightarrow> default_hugepagesize bufs)"

fun pg_leftmost_one_pos :: "nat \<Rightarrow> nat" where
  "pg_leftmost_one_pos n = (if n < 2 then 0 else Suc (pg_leftmost_one_pos (n div 2)))"

declare pg_leftmost_one_pos.simps [simp del]

definition pg_ceil_log2_64 :: "u64 \<Rightarrow> nat" where
  "pg_ceil_log2_64 num = (if num < 2 then 0 else pg_leftmost_one_pos (unat (num - 1)) + 1)"

text \<open>The page size and the flags of \<^verbatim>\<open>mmap\<close>.\<close>

definition GetHugePageSize :: "pg_env \<Rightarrow> u64 \<times> u32" where
  "GetHugePageSize env =
     (let dflt = (case meminfo env of None \<Rightarrow> 0 | Some bufs \<Rightarrow> default_hugepagesize bufs);
          local = (if huge_page_size env \<noteq> 0 then of_int (huge_page_size env) * 1024
                   else if dflt \<noteq> 0 then dflt
                   else 2 * 1024 * 1024);
          shift = of_nat (pg_ceil_log2_64 local) :: u32
      in (local, if local \<noteq> dflt then MAP_HUGETLB OR push_bit 26 (shift AND 0x3f) else MAP_HUGETLB))"

definition round_alloc :: "u64 \<Rightarrow> u64 \<Rightarrow> u64" where
  "round_alloc pagesize allocsize =
     (if allocsize mod pagesize \<noteq> 0 then allocsize + (pagesize - allocsize mod pagesize) else allocsize)"

definition map_memory :: "pg_env \<Rightarrow> u64 \<Rightarrow> u32 \<Rightarrow> nat option \<Rightarrow> mapping option" where
  "map_memory env sz flags fd =
     (case mmap env sz flags fd of
        Inl _ \<Rightarrow> None
      | Inr a \<Rightarrow> Some \<lparr>map_addr = a, map_size = sz, map_flags = flags, map_fd = fd\<rparr>)"

text \<open>
  The mapping (its size is the new value of \<^verbatim>\<open>*size\<close>) and the value of \<^verbatim>\<open>huge_pages_status\<close>, \<open>None\<close>
  when it was not set.  The result of \<^verbatim>\<open>ftruncate\<close> is not used.
\<close>

definition CreateAnonymousSegment :: "pg_env \<Rightarrow> u64 \<Rightarrow> (pg_error + mapping) \<times> bool option" where
  "CreateAnonymousSegment env sz =
     (let huge = (huge_pages env = HUGE_PAGES_ON \<or> huge_pages env = HUGE_PAGES_TRY);
          (hugepagesize, mmap_flags) = GetHugePageSize env;
          ptr1 = (if huge then map_memory env (round_alloc hugepagesize sz) (PG_MMAP_FLAGS OR mmap_flags) None else None)
      in case (huge_pages env, open_tmpfile env) of
           (FBMM_ON, Inl _) \<Rightarrow> (Inl (PgFatal ''Failed to create FBMM file''), None)
         | (hp, fd) \<Rightarrow>
             (let ptr2 = (case (hp, fd) of
                            (FBMM_ON, Inr d) \<Rightarrow> map_memory env (round_alloc 4096 sz) PG_MMAP_FLAGS (Some d)
                          | _ \<Rightarrow> ptr1);
                  status = Some (ptr2 \<noteq> None);
                  ptr3 = (if ptr2 = None \<and> hp \<noteq> HUGE_PAGES_ON \<and> hp \<noteq> FBMM_ON
                          then map_memory env sz PG_MMAP_FLAGS None else ptr2)
              in case ptr3 of
                   None \<Rightarrow> (Inl (PgFatal ''could not map anonymous shared memory''), status)
                 | Some m \<Rightarrow> (Inr m, status)))"

definition AnonymousShmemDetach :: "pg_proc \<Rightarrow> pg_proc" where
  "AnonymousShmemDetach p =
     (case AnonymousShmem p of
        None \<Rightarrow> p
      | Some a \<Rightarrow> p\<lparr>mappings := filter (\<lambda>m. map_addr m \<noteq> a) (mappings p), AnonymousShmem := None\<rparr>)"

section \<open>Creation and release\<close>

text \<open>
  One round of the loop after a failed creation: the error, or the key to try next.
\<close>

definition handle_collision :: "pg_env \<Rightarrow> u32 \<Rightarrow> pg_proc \<Rightarrow> (pg_error + u32) \<times> pg_proc" where
  "handle_collision env NextShmemSegID p =
     (let (shmid, (state, oldhdr), k1) =
        (case shmget_old NextShmemSegID sizeof_PGShmemHeader (ipc p) of
           Inl _ \<Rightarrow> (0, (SHMSTATE_FOREIGN, None), ipc p)
         | Inr i \<Rightarrow> (i, PGSharedMemoryAttach (data_dir env) i (ipc p)))
      in case state of
           SHMSTATE_ANALYSIS_FAILURE \<Rightarrow> (Inl (PgFatal ''pre-existing shared memory block is still in use''), p\<lparr>ipc := k1\<rparr>)
         | SHMSTATE_ATTACHED \<Rightarrow> (Inl (PgFatal ''pre-existing shared memory block is still in use''), p\<lparr>ipc := k1\<rparr>)
         | SHMSTATE_ENOENT \<Rightarrow> (Inr NextShmemSegID, p\<lparr>ipc := detach_if oldhdr k1\<rparr>)
         | SHMSTATE_FOREIGN \<Rightarrow> (Inr (NextShmemSegID + 1), p\<lparr>ipc := detach_if oldhdr k1\<rparr>)
         | SHMSTATE_UNATTACHED \<Rightarrow>
             (let control = (case oldhdr of None \<Rightarrow> 0
                             | Some i \<Rightarrow> (case by_id i k1 of None \<Rightarrow> 0 | Some s \<Rightarrow> dsm_control (seg_hdr s)));
                  p1 = (if control \<noteq> 0 then p\<lparr>dsm_cleaned := dsm_cleaned p @ [control]\<rparr> else p)
              in case shmctl_rmid shmid k1 of
                   (Inl _, k2) \<Rightarrow> (Inr (NextShmemSegID + 1), p1\<lparr>ipc := detach_if oldhdr k2\<rparr>)
                 | (Inr _, k2) \<Rightarrow> (Inr NextShmemSegID, p1\<lparr>ipc := detach_if oldhdr k2\<rparr>)))"

partial_function (option) create_loop ::
  "pg_env \<Rightarrow> u64 \<Rightarrow> u32 \<Rightarrow> pg_proc \<Rightarrow> ((pg_error + (nat \<times> u32)) \<times> pg_proc) option" where
  "create_loop env sysvsize NextShmemSegID p =
     (case InternalIpcMemoryCreate NextShmemSegID sysvsize p of
        (Inl e, p1) \<Rightarrow> Some (Inl e, p1)
      | (Inr (Some a), p1) \<Rightarrow> Some (Inr (a, NextShmemSegID), p1)
      | (Inr None, p1) \<Rightarrow>
          (case handle_collision env NextShmemSegID p1 of
             (Inl e, p2) \<Rightarrow> Some (Inl e, p2)
           | (Inr k, p2) \<Rightarrow> create_loop env sysvsize k p2))"

definition new_header :: "pg_env \<Rightarrow> u64 \<times> u64 \<Rightarrow> u64 \<Rightarrow> PGShmemHeader \<Rightarrow> PGShmemHeader" where
  "new_header env dir sz h =
     h\<lparr>creatorPID := my_pid env, magic := PGShmemMagic, dsm_control := 0, device := fst dir, inode := snd dir,
       totalsize := sz, freeoffset := MAXALIGN sizeof_PGShmemHeader\<rparr>"

text \<open>Where the shared memory is: in the segment itself or in the anonymous mapping.\<close>

datatype shmem_place = SysvSegment nat | AnonymousSegment u64

definition finish_create ::
  "pg_env \<Rightarrow> u64 \<times> u64 \<Rightarrow> u64 \<Rightarrow> nat \<Rightarrow> u32 \<Rightarrow> pg_proc \<Rightarrow> (shmem_place \<times> PGShmemHeader) \<times> pg_proc" where
  "finish_create env dir sz memAddress key p =
     (let old = (case by_id memAddress (ipc p) of None \<Rightarrow> zero_hdr | Some s \<Rightarrow> seg_hdr s);
          hdr = new_header env dir sz old;
          p1 = p\<lparr>ipc := on_seg memAddress (\<lambda>s. s\<lparr>seg_hdr := hdr\<rparr>) (ipc p),
                 UsedShmemSegAddr := Some memAddress, UsedShmemSegID := scast key\<rparr>
      in case AnonymousShmem p1 of
           None \<Rightarrow> ((SysvSegment memAddress, hdr), p1)
         | Some a \<Rightarrow> ((AnonymousSegment a, hdr), p1\<lparr>anon_hdr := Some hdr\<rparr>))"

text \<open>
  The memory for the data, before the segment: the usable size and the size of the System V segment.
\<close>

definition prepare_memory :: "pg_env \<Rightarrow> u64 \<Rightarrow> pg_proc \<Rightarrow> (pg_error + (u64 \<times> u64)) \<times> pg_proc" where
  "prepare_memory env sz p =
     (if shared_memory_type env = SHMEM_TYPE_MMAP then
        (case CreateAnonymousSegment env sz of
           (Inl e, status) \<Rightarrow>
             (Inl e, p\<lparr>huge_pages_status := (if status = None then huge_pages_status p else status)\<rparr>)
         | (Inr m, status) \<Rightarrow>
             (Inr (map_size m, sizeof_PGShmemHeader),
              on_shmem_exit AnonymousShmemDetachCb
                (p\<lparr>huge_pages_status := status, AnonymousShmem := Some (map_addr m), AnonymousShmemSize := map_size m,
                   mappings := m # mappings p\<rparr>)))
      else (Inr (sz, sz), p\<lparr>huge_pages_status := Some False\<rparr>))"

definition PGSharedMemoryCreate ::
  "pg_env \<Rightarrow> u64 \<Rightarrow> pg_proc \<Rightarrow> ((pg_error + (shmem_place \<times> PGShmemHeader)) \<times> pg_proc) option" where
  "PGSharedMemoryCreate env sz p =
     (case data_dir env of
        None \<Rightarrow> Some (Inl (PgFatal ''could not stat data directory''), p)
      | Some dir \<Rightarrow>
          if huge_pages env = HUGE_PAGES_ON \<and> shared_memory_type env \<noteq> SHMEM_TYPE_MMAP
          then Some (Inl (PgError ''huge pages not supported with the current shared_memory_type setting''), p)
          else if \<not> sz > MAXALIGN sizeof_PGShmemHeader then Some (Inl PgAssert, p)
          else
            (case prepare_memory env sz p of
               (Inl e, p1) \<Rightarrow> Some (Inl e, p1)
             | (Inr (sz1, sysvsize), p1) \<Rightarrow>
                 (case create_loop env sysvsize (ucast (snd dir)) p1 of
                    None \<Rightarrow> None
                  | Some (Inl e, p2) \<Rightarrow> Some (Inl e, p2)
                  | Some (Inr (memAddress, key), p2) \<Rightarrow>
                      (case finish_create env dir sz1 memAddress key p2 of (r, p3) \<Rightarrow> Some (Inr r, p3)))))"

definition PGSharedMemoryDetach :: "pg_proc \<Rightarrow> pg_proc" where
  "PGSharedMemoryDetach p =
     AnonymousShmemDetach
       (case UsedShmemSegAddr p of
          None \<Rightarrow> p
        | Some a \<Rightarrow> p\<lparr>ipc := snd (shmdt a (ipc p)), UsedShmemSegAddr := None\<rparr>)"

text \<open>The callbacks of \<^verbatim>\<open>shmem_exit\<close>, the last registered first.\<close>

fun run_callback :: "exit_callback \<Rightarrow> pg_proc \<Rightarrow> pg_proc" where
  "run_callback (IpcMemoryDetachCb a) p = IpcMemoryDetach a p"
| "run_callback (IpcMemoryDeleteCb i) p = IpcMemoryDelete i p"
| "run_callback AnonymousShmemDetachCb p = AnonymousShmemDetach p"

definition shmem_exit :: "pg_proc \<Rightarrow> pg_proc" where
  "shmem_exit p = fold run_callback (on_shmem_exit_list p) (p\<lparr>on_shmem_exit_list := []\<rparr>)"

section \<open>Probing segments\<close>

text \<open>The segment is PostgreSQL's and of this data directory.\<close>

definition of_data_dir :: "(u64 \<times> u64) option \<Rightarrow> seg \<Rightarrow> bool" where
  "of_data_dir dir s \<longleftrightarrow> magic (seg_hdr s) = PGShmemMagic \<and> dir = Some (device (seg_hdr s), inode (seg_hdr s))"

text \<open>What \<^verbatim>\<open>PGSharedMemoryAttach\<close> says of a segment, from the segment alone.\<close>

definition seg_state :: "(u64 \<times> u64) option \<Rightarrow> errno option \<Rightarrow> seg option \<Rightarrow> IpcMemoryState" where
  "seg_state dir refuse s =
     (case s of
        None \<Rightarrow> SHMSTATE_ENOENT
      | Some s \<Rightarrow>
          if \<not> accessible s then SHMSTATE_FOREIGN
          else if dir = None \<or> refuse \<noteq> None then SHMSTATE_ANALYSIS_FAILURE
          else if \<not> of_data_dir dir s then SHMSTATE_FOREIGN
          else if nattch s = 0 then SHMSTATE_UNATTACHED else SHMSTATE_ATTACHED)"

lemma seg_state_cases:
  "accessible s \<Longrightarrow> seg_state dir refuse (Some s) \<in> {SHMSTATE_ATTACHED, SHMSTATE_ANALYSIS_FAILURE} \<or>
   seg_state dir refuse (Some s) = SHMSTATE_FOREIGN \<or>
   seg_state dir refuse (Some s) = SHMSTATE_UNATTACHED \<and> nattch s = 0 \<and> of_data_dir dir s"
  by (simp add: seg_state_def)

lemma shmat_Inr:
  assumes "by_id i k = Some s" "accessible s" "at_refuse k = None"
  shows "\<exists>k1. shmat i k = (Inr i, k1) \<and> by_id i k1 = Some (s\<lparr>nattch := Suc (nattch s)\<rparr>)"
proof -
  have upd: "List.find (\<lambda>t. seg_id t = i) (map (\<lambda>t. if seg_id t = i then t\<lparr>nattch := Suc (nattch t)\<rparr> else t) xs) =
    map_option (\<lambda>t. t\<lparr>nattch := Suc (nattch t)\<rparr>) (List.find (\<lambda>t. seg_id t = i) xs)" for xs
    by (induction xs) auto
  show ?thesis using assms by (simp add: shmat_def by_id_def on_seg_def upd)
qed

lemma attach_cases [consumes 1, case_names none some]:
  assumes "ipc_ok k"
  obtains (none) "PGSharedMemoryAttach dir i k = ((seg_state dir (at_refuse k) (by_id i k), None), k)"
      "seg_state dir (at_refuse k) (by_id i k) \<in> {SHMSTATE_ENOENT, SHMSTATE_FOREIGN, SHMSTATE_ANALYSIS_FAILURE}"
  | (some) s k1 where "PGSharedMemoryAttach dir i k = ((seg_state dir (at_refuse k) (by_id i k), Some i), k1)"
      "by_id i k = Some s" "shmat i k = (Inr i, k1)" "by_id i k1 = Some (s\<lparr>nattch := Suc (nattch s)\<rparr>)"
proof (cases "by_id i k")
  case None
  then show ?thesis by (intro none) (simp_all add: PGSharedMemoryAttach_def shmctl_stat_def seg_state_def)
next
  case (Some s)
  show ?thesis
  proof (cases "accessible s \<and> dir \<noteq> None \<and> at_refuse k = None")
    case True
    then obtain k1 where k1: "shmat i k = (Inr i, k1)" "by_id i k1 = Some (s\<lparr>nattch := Suc (nattch s)\<rparr>)"
      using shmat_Inr [OF Some] by auto
    obtain d n where "dir = Some (d, n)" using True by auto
    then show ?thesis using True Some k1
      by (intro some [OF _ Some k1])
        (auto simp: PGSharedMemoryAttach_def shmctl_stat_def seg_state_def of_data_dir_def)
  next
    case False
    have "at_refuse k = None \<or> at_refuse k = Some ENOMEM" using assms by (auto simp: ipc_ok_def)
    then show ?thesis using False Some
      by (intro none)
        (auto simp: PGSharedMemoryAttach_def shmctl_stat_def seg_state_def shmat_def split: option.splits)
  qed
qed

text \<open>
  C19: The test for a segment in use that belongs to the data directory is exact, and leaves the
  system as it was: it says no exactly when there is no such segment, the segment belongs to someone
  else, or nobody has it attached; when the segment cannot be examined it says yes.
\<close>

theorem PGSharedMemoryIsInUse_exact:
  assumes "ipc_ok k"
  shows "PGSharedMemoryIsInUse dir i k =
    (case by_id i k of
       None \<Rightarrow> False
     | Some s \<Rightarrow> accessible s \<and> (dir = None \<or> at_refuse k \<noteq> None \<or> of_data_dir dir s \<and> 0 < nattch s), k)"
  using assms
proof (cases rule: attach_cases [where dir = dir and i = i])
  case none
  then show ?thesis
    by (auto simp: PGSharedMemoryIsInUse_def detach_if_def seg_state_def split: option.splits if_splits)
next
  case (some s k1)
  have "snd (shmdt i k1) = k" using shmat_shmdt [OF assms some(3)] by simp
  then show ?thesis using some(1,2)
    by (auto simp: PGSharedMemoryIsInUse_def detach_if_def seg_state_def split: if_splits)
qed

section \<open>The search for a key\<close>

text \<open>The segments that start-up may remove.\<close>

definition recyclable :: "pg_env \<Rightarrow> seg \<Rightarrow> bool" where
  "recyclable env s \<longleftrightarrow> of_data_dir (data_dir env) s \<and> nattch s = 0 \<and> accessible s \<and> owned s"

text \<open>A system in which only such segments are missing.\<close>

definition trimmed :: "pg_env \<Rightarrow> ipc \<Rightarrow> ipc \<Rightarrow> bool" where
  "trimmed env k k' \<longleftrightarrow> ipc_ok k' \<and> attached k' = attached k \<and> set (segs k') \<subseteq> set (segs k) \<and>
     (\<forall>s\<in>set (segs k). s \<notin> set (segs k') \<longrightarrow> recyclable env s)"

lemma trimmed_refl: "ipc_ok k \<Longrightarrow> trimmed env k k" by (simp add: trimmed_def)

lemma trimmed_trans: "trimmed env k1 k2 \<Longrightarrow> trimmed env k2 k3 \<Longrightarrow> trimmed env k1 k3"
  unfolding trimmed_def by (metis (no_types, lifting) dual_order.trans)

text \<open>What is left alone of the process by the rounds of the loop.\<close>

lemma collision_cases [consumes 2, case_names fatal skip recycle]:
  assumes "ipc_ok (ipc p)" "by_key key (ipc p) = Some s"
  obtains (fatal) e k where "handle_collision env key p = (Inl (PgFatal e), p\<lparr>ipc := k\<rparr>)"
      "k = ipc p \<or> shmat (seg_id s) (ipc p) = (Inr (seg_id s), k)"
  | (skip) cleaned where "handle_collision env key p = (Inr (key + 1), p\<lparr>dsm_cleaned := cleaned\<rparr>)"
  | (recycle) cleaned where "handle_collision env key p =
        (Inr key, p\<lparr>dsm_cleaned := cleaned, ipc := (ipc p)\<lparr>segs := filter (\<lambda>t. seg_id t \<noteq> seg_id s) (segs (ipc p))\<rparr>\<rparr>)"
      "recyclable env s"
proof (cases "shmget_old key sizeof_PGShmemHeader (ipc p)")
  case (Inl e)
  then show ?thesis using skip [of "dsm_cleaned p"] by (simp add: handle_collision_def detach_if_def)
next
  case (Inr i)
  have s: "s \<in> set (segs (ipc p))" using by_key_Some [OF assms(2)] by simp
  have i: "i = seg_id s" "accessible s" using Inr assms(2) by (auto simp: shmget_old_def split: if_splits)
  have id: "by_id i (ipc p) = Some s" unfolding i by (rule by_id_member [OF assms(1) s])
  have env: "at_refuse (ipc p) \<noteq> Some EINVAL" using assms(1) by (auto simp: ipc_ok_def)
  show ?thesis using assms(1)
  proof (cases rule: attach_cases [where dir = "data_dir env" and i = i])
    case none
    then have "seg_state (data_dir env) (at_refuse (ipc p)) (by_id i (ipc p)) \<in> {SHMSTATE_FOREIGN, SHMSTATE_ANALYSIS_FAILURE}"
      using id i(2) by (auto simp: seg_state_def)
    then show ?thesis using none(1) Inr skip [of "dsm_cleaned p"] fatal [of _ "ipc p"]
      by (auto simp: handle_collision_def detach_if_def)
  next
    case (some t k1)
    have t: "t = s" using some(2) id by simp
    have detach: "snd (shmdt i k1) = ipc p" using shmat_shmdt [OF assms(1) some(3)] by simp
    consider "seg_state (data_dir env) (at_refuse (ipc p)) (by_id i (ipc p)) \<in> {SHMSTATE_ATTACHED, SHMSTATE_ANALYSIS_FAILURE}"
      | "seg_state (data_dir env) (at_refuse (ipc p)) (by_id i (ipc p)) = SHMSTATE_FOREIGN"
      | "seg_state (data_dir env) (at_refuse (ipc p)) (by_id i (ipc p)) = SHMSTATE_UNATTACHED"
        "nattch s = 0" "of_data_dir (data_dir env) s"
      using seg_state_cases [OF i(2), of "data_dir env" "at_refuse (ipc p)"] unfolding id by metis
    then show ?thesis
    proof cases
      case 1
      then show ?thesis using some(1,3) Inr i(1) fatal [of _ k1] by (auto simp: handle_collision_def)
    next
      case 2
      then show ?thesis using some(1) Inr skip [of "dsm_cleaned p"] detach
        by (simp add: handle_collision_def detach_if_def)
    next
      case 3
      let ?cleaned = "if dsm_control (seg_hdr s) \<noteq> 0 then dsm_cleaned p @ [dsm_control (seg_hdr s)] else dsm_cleaned p"
      show ?thesis
      proof (cases "owned s")
        case True
        then obtain k2 where k2: "shmctl_rmid i k1 = (Inr (), k2)" using some(4) t by (simp add: shmctl_rmid_def)
        have "snd (shmdt i k2) = (ipc p)\<lparr>segs := filter (\<lambda>t. seg_id t \<noteq> i) (segs (ipc p))\<rparr>"
          using attach_remove_detach [OF assms(1) id 3(2) some(3) k2] by simp
        then show ?thesis using 3 True i some(1,4) Inr k2 t
          by (intro recycle [of ?cleaned]) (auto simp: handle_collision_def detach_if_def recyclable_def Let_def)
      next
        case False
        then have "shmctl_rmid i k1 = (Inl EPERM, k1)" using some(4) t by (simp add: shmctl_rmid_def)
        then show ?thesis using 3(1) some(1,4) Inr detach t
          by (intro skip [of ?cleaned]) (auto simp: handle_collision_def detach_if_def Let_def)
      qed
    qed
  qed
qed

lemma create_free_key:
  assumes "ipc_ok (ipc p)" "by_key key (ipc p) = None"
  shows "\<forall>q. InternalIpcMemoryCreate key sz p \<noteq> (Inr None, q)"
proof -
  have quiet: "shmget_new key n (ipc p) = (Inl e, k) \<Longrightarrow> \<not> key_collision e \<and> k = ipc p" for n e k
    using assms by (auto simp: shmget_new_def key_collision_def ipc_ok_def split: if_splits option.splits)
  obtain x k where x: "shmget_new key sz (ipc p) = (x, k)" by fastforce
  obtain y l where y: "shmget_new key 0 (ipc p) = (y, l)" by fastforce
  show ?thesis
  proof (cases x)
    case (Inl e)
    then have "k = ipc p" "\<not> key_collision e" using quiet x by blast+
    then show ?thesis using quiet [of 0] x y Inl by (cases y) (auto simp: InternalIpcMemoryCreate_def)
  next
    case (Inr i)
    then show ?thesis using x by (auto simp: InternalIpcMemoryCreate_def Let_def split: sum.splits prod.splits)
  qed
qed

lemma create_taken_key:
  assumes "by_key key (ipc p) = Some s"
  shows "InternalIpcMemoryCreate key sz p = (Inr None, p)"
  using assms by (simp add: InternalIpcMemoryCreate_def shmget_new_def key_collision_def)

lemma create_loop_free:
  assumes "ipc_ok (ipc p)" "by_key key (ipc p) = None"
  shows "\<exists>r. create_loop env sz key p = Some r"
proof -
  obtain r q where rq: "InternalIpcMemoryCreate key sz p = (r, q)" by fastforce
  moreover have "r \<noteq> Inr None" using create_free_key [OF assms, of sz] rq by auto
  ultimately show ?thesis
    by (subst create_loop.simps) (auto split: sum.splits option.splits)
qed

lemma by_key_recycled:
  assumes "ipc_ok k" "by_key key k = Some s"
  shows "by_key key (k\<lparr>segs := filter (\<lambda>t. seg_id t \<noteq> seg_id s) (segs k)\<rparr>) = None"
  using by_key_Some [OF assms(2)] assms(1) by (auto simp: by_key_None ipc_ok_def)

lemma create_loop_returns:
  "ipc_ok (ipc p) \<Longrightarrow> by_key (key + of_nat j) (ipc p) = None \<Longrightarrow> \<exists>r. create_loop env sz key p = Some r"
proof (induction j arbitrary: key p)
  case 0
  then show ?case by (intro create_loop_free) simp_all
next
  case (Suc j)
  show ?case
  proof (cases "by_key key (ipc p)")
    case None
    then show ?thesis using create_loop_free Suc.prems(1) by simp
  next
    case (Some s)
    note loop = create_loop.simps [of env sz key p, unfolded create_taken_key [OF Some]]
    from Suc.prems(1) Some show ?thesis
    proof (cases rule: collision_cases [where env = env])
      case (fatal e k)
      then show ?thesis by (simp add: loop)
    next
      case (skip cleaned)
      then show ?thesis using Suc.IH [of "p\<lparr>dsm_cleaned := cleaned\<rparr>" "key + 1"] Suc.prems
        by (simp add: loop add.assoc)
    next
      case (recycle cleaned)
      then show ?thesis
        using create_loop_free [of "p\<lparr>dsm_cleaned := cleaned, ipc := (ipc p)\<lparr>segs := filter (\<lambda>t. seg_id t \<noteq> seg_id s) (segs (ipc p))\<rparr>\<rparr>"]
          ipc_ok_filter [OF Suc.prems(1)] by_key_recycled [OF Suc.prems(1) Some]
        by (simp add: loop)
    qed
  qed
qed

text \<open>
  C17: Start-up ends: with fewer than \<open>2 ^ 32\<close> segments in the system, the search for a free key
  and with it the creation of shared memory returns, with a result or an error.
\<close>

theorem PGSharedMemoryCreate_returns:
  assumes "ipc_ok (ipc p)" "length (segs (ipc p)) < 2 ^ 32"
  shows "\<exists>r. PGSharedMemoryCreate env sz p = Some r"
proof -
  have "\<exists>r. create_loop env n key q = Some r" if "ipc q = ipc p" for n key q
    using free_key [OF assms(2), of key] create_loop_returns [of q key] assms(1) that by auto
  then have loop: "create_loop env n key q \<noteq> None" if "ipc q = ipc p" for n key q
    using that by fastforce
  obtain x p1 where x: "prepare_memory env sz p = (x, p1)" by fastforce
  then have "ipc p1 = ipc p"
    by (auto simp: prepare_memory_def on_shmem_exit_def split: if_splits sum.splits prod.splits)
  then have l1: "(create_loop env n key p1 = None) = False" for n key using loop by simp
  show ?thesis using x
    by (auto simp: PGSharedMemoryCreate_def l1 split: option.splits sum.splits prod.splits)
qed

section \<open>What start-up leaves\<close>

text \<open>
  How the loop ends, from a system \<open>k\<close> in which it stops searching: with a new attached segment
  whose release is registered; with an error and no change of the segments, or a change that the
  registered callback or the end of the process undoes.
\<close>

fun loop_outcome :: "u64 \<Rightarrow> ipc \<Rightarrow> pg_proc \<Rightarrow> pg_error + (nat \<times> u32) \<Rightarrow> pg_proc \<Rightarrow> bool" where
  "loop_outcome sz k p (Inr (a, key)) p' =
     ((\<exists>k2. shmget_new key sz k = (Inr a, k2) \<and> shmat a k2 = (Inr a, ipc p')) \<and>
      on_shmem_exit_list p' = IpcMemoryDetachCb a # IpcMemoryDeleteCb a # on_shmem_exit_list p \<and>
      lock_file_line p' = Some (key, a))"
| "loop_outcome sz k p (Inl e) p' =
     (on_shmem_exit_list p' = on_shmem_exit_list p \<and>
        (segs (ipc p') = segs k \<and> attached (ipc p') = attached k \<or> (\<exists>i. shmat i k = (Inr i, ipc p'))) \<or>
      (\<exists>key i. on_shmem_exit_list p' = IpcMemoryDeleteCb i # on_shmem_exit_list p \<and> shmget_new key sz k = (Inr i, ipc p')))"

definition same_anon :: "pg_proc \<Rightarrow> pg_proc \<Rightarrow> bool" where
  "same_anon p p' \<longleftrightarrow> AnonymousShmem p' = AnonymousShmem p \<and> mappings p' = mappings p"

lemma loop_outcome_cong:
  "on_shmem_exit_list q = on_shmem_exit_list p \<Longrightarrow> loop_outcome sz k q r p' = loop_outcome sz k p r p'"
  by (cases "(sz, k, p, r, p')" rule: loop_outcome.cases) simp_all

lemma internal_create_outcome:
  assumes "ipc_ok (ipc p)" "by_key key (ipc p) = None" "InternalIpcMemoryCreate key sz p = (r, p')"
  shows "same_anon p p' \<and>
    (case r of Inl e \<Rightarrow> loop_outcome sz (ipc p) p (Inl e) p' | Inr None \<Rightarrow> False
     | Inr (Some a) \<Rightarrow> loop_outcome sz (ipc p) p (Inr (a, key)) p')"
proof -
  have r: "r \<noteq> Inr None" using create_free_key [OF assms(1,2)] assms(3) by blast
  obtain x k where x: "shmget_new key sz (ipc p) = (x, k)" by fastforce
  obtain y l where y: "shmget_new key 0 k = (y, l)" by fastforce
  show ?thesis
  proof (cases x)
    case (Inl e)
    have k: "k = ipc p" using x Inl by (auto simp: shmget_new_def split: if_splits option.splits)
    have "y = Inr i \<Longrightarrow> shmctl_rmid i l = (Inr (), (ipc p)\<lparr>next_id := Suc (next_id (ipc p))\<rparr>)" for i
      using new_remove [OF assms(1)] y k by simp
    moreover have "y = Inl e2 \<Longrightarrow> l = ipc p" for e2
      using y k by (auto simp: shmget_new_def split: if_splits option.splits)
    ultimately show ?thesis using assms(3) r x y Inl k
      by (cases y) (auto simp: InternalIpcMemoryCreate_def same_anon_def split: if_splits)
  next
    case (Inr i)
    have "fst (shmat i k) = Inr a \<Longrightarrow> a = i" for a
      by (auto simp: shmat_def split: option.splits if_splits)
    moreover have "fst (shmat i k) = Inl e \<Longrightarrow> snd (shmat i k) = k" for e
      by (auto simp: shmat_def split: option.splits if_splits)
    ultimately show ?thesis using assms(3) x Inr
      by (auto simp: InternalIpcMemoryCreate_def on_shmem_exit_def same_anon_def Let_def split: sum.splits prod.splits)
  qed
qed

lemma trimmed_recycle:
  assumes "ipc_ok k" "by_key key k = Some s" "recyclable env s"
  shows "trimmed env k (k\<lparr>segs := filter (\<lambda>t. seg_id t \<noteq> seg_id s) (segs k)\<rparr>)"
proof -
  have s: "s \<in> set (segs k)" using by_key_Some [OF assms(2)] by simp
  have "recyclable env t" if t: "t \<in> set (segs k)" "seg_id t = seg_id s" for t
  proof -
    have "by_id (seg_id s) k = Some t" using by_id_member [OF assms(1) t(1)] t(2) by simp
    then have "t = s" using by_id_member [OF assms(1) s] by simp
    then show ?thesis using assms(3) by simp
  qed
  then show ?thesis unfolding trimmed_def using ipc_ok_filter [OF assms(1)] by simp
qed

lemma create_loop_outcome:
  assumes "create_loop env sz key p = Some y"
  shows "ipc_ok (ipc p) \<longrightarrow>
    (\<exists>k. trimmed env (ipc p) k \<and> loop_outcome sz k p (fst y) (snd y) \<and> same_anon p (snd y))"
proof (rule create_loop.raw_induct [OF _ assms], rule impI, goal_cases)
  case (1 loop env sz key p y)
  show ?case
  proof (cases "by_key key (ipc p)")
    case None
    obtain x q where x: "InternalIpcMemoryCreate key sz p = (x, q)" by fastforce
    note out = internal_create_outcome [OF 1(3) None x]
    then show ?thesis using 1(2) x trimmed_refl [OF 1(3)]
      by (intro exI [of _ "ipc p"]) (auto split: sum.splits option.splits)
  next
    case (Some s)
    note body = 1(2) [unfolded create_taken_key [OF Some], simplified]
    from 1(3) Some show ?thesis
    proof (cases rule: collision_cases [where env = env])
      case (fatal e k)
      then have "y = (Inl (PgFatal e), p\<lparr>ipc := k\<rparr>)" using body by simp
      then show ?thesis using fatal(2) trimmed_refl [OF 1(3)]
        by (intro exI [of _ "ipc p"]) (auto simp: same_anon_def)
    next
      case (skip cleaned)
      then have "loop env sz (key + 1) (p\<lparr>dsm_cleaned := cleaned\<rparr>) = Some y" using body by simp
      from 1(1) [OF this] 1(3) show ?thesis
        by (auto simp: same_anon_def loop_outcome_cong [of "p\<lparr>dsm_cleaned := cleaned\<rparr>" p])
    next
      case (recycle cleaned)
      let ?k = "(ipc p)\<lparr>segs := filter (\<lambda>t. seg_id t \<noteq> seg_id s) (segs (ipc p))\<rparr>"
      let ?q = "p\<lparr>dsm_cleaned := cleaned, ipc := ?k\<rparr>"
      have loop: "loop env sz key ?q = Some y" using body recycle(1) by simp
      note trim = trimmed_recycle [OF 1(3) Some recycle(2)]
      have "ipc_ok (ipc ?q)" using trim by (simp add: trimmed_def)
      then obtain k where k: "trimmed env ?k k" "loop_outcome sz k ?q (fst y) (snd y)" "same_anon ?q (snd y)"
        using 1(1) [OF loop] by auto
      have "loop_outcome sz k p (fst y) (snd y)" using k(2) loop_outcome_cong [of ?q p] by simp
      then show ?thesis using trimmed_trans [OF trim k(1)] k(3) by (auto simp: same_anon_def)
    qed
  qed
qed

fun ipc_callback :: "exit_callback \<Rightarrow> ipc \<Rightarrow> ipc" where
  "ipc_callback (IpcMemoryDetachCb a) k = snd (shmdt a k)"
| "ipc_callback (IpcMemoryDeleteCb i) k = snd (shmctl_rmid i k)"
| "ipc_callback AnonymousShmemDetachCb k = k"

lemma run_callback_ipc: "ipc (run_callback cb p) = ipc_callback cb (ipc p)"
  by (cases cb) (simp_all add: IpcMemoryDetach_def IpcMemoryDelete_def AnonymousShmemDetach_def split: option.splits)

lemma shmem_exit_ipc: "ipc (shmem_exit p) = fold ipc_callback (on_shmem_exit_list p) (ipc p)"
proof -
  have "ipc (fold run_callback cbs q) = fold ipc_callback cbs (ipc q)" for cbs q
    by (induction cbs arbitrary: q) (simp_all add: run_callback_ipc)
  then show ?thesis by (simp add: shmem_exit_def)
qed

text \<open>The system after the callbacks have run and the process has ended.\<close>

definition after_exit :: "pg_proc \<Rightarrow> ipc" where
  "after_exit p = ipc_exit (ipc (shmem_exit p))"

lemma shmat_attached: "shmat i k = (Inr a, k') \<Longrightarrow> attached k' = i # attached k"
  by (auto simp: shmat_def on_seg_def split: option.splits if_splits)

lemma ipc_exit_none: "attached k = [] \<Longrightarrow> ipc_exit k = k" by (simp add: ipc_exit_def)

lemma ipc_exit_one: "attached k = [i] \<Longrightarrow> ipc_exit k = snd (shmdt i k)" by (simp add: ipc_exit_def)

lemma anon_callbacks: "set cbs \<subseteq> {AnonymousShmemDetachCb} \<Longrightarrow> fold ipc_callback cbs l = l"
  by (induction cbs) auto

lemma exit_after_error:
  assumes "ipc_ok k" "attached k = []" "loop_outcome sz k q (Inl e) p'"
    "set (on_shmem_exit_list q) \<subseteq> {AnonymousShmemDetachCb}"
  shows "segs (after_exit p') = segs k"
proof -
  note anon = anon_callbacks [OF assms(4)]
  from assms(3) consider
      "on_shmem_exit_list p' = on_shmem_exit_list q" "segs (ipc p') = segs k" "attached (ipc p') = attached k"
    | i where "on_shmem_exit_list p' = on_shmem_exit_list q" "shmat i k = (Inr i, ipc p')"
    | key i where "on_shmem_exit_list p' = IpcMemoryDeleteCb i # on_shmem_exit_list q" "shmget_new key sz k = (Inr i, ipc p')"
    by auto
  then show ?thesis
  proof cases
    case 1
    then show ?thesis using assms(2) by (simp add: after_exit_def shmem_exit_ipc anon ipc_exit_none)
  next
    case 2
    then have "attached (ipc p') = [i]" using assms(2) shmat_attached by fastforce
    then show ?thesis using 2 shmat_shmdt [OF assms(1) 2(2)]
      by (simp add: after_exit_def shmem_exit_ipc anon ipc_exit_one)
  next
    case 3
    then show ?thesis using new_remove [OF assms(1) 3(2)] assms(2)
      by (simp add: after_exit_def shmem_exit_ipc anon ipc_exit_none)
  qed
qed

lemma exit_after_success:
  assumes "ipc_ok k" "attached k = []" "loop_outcome sz k q (Inr (a, key)) p'"
    "set (on_shmem_exit_list q) \<subseteq> {AnonymousShmemDetachCb}"
    "ipc p2 = on_seg a (\<lambda>s. s\<lparr>seg_hdr := h\<rparr>) (ipc p')" "on_shmem_exit_list p2 = on_shmem_exit_list p'"
  shows "segs (after_exit p2) = segs k"
proof -
  note anon = anon_callbacks [OF assms(4)]
  obtain k2 where new: "shmget_new key sz k = (Inr a, k2)" "shmat a k2 = (Inr a, ipc p')" using assms(3) by auto
  show ?thesis using new_attach_release(3) [OF assms(1) new] assms(2,3,5,6)
    by (simp add: after_exit_def shmem_exit_ipc anon ipc_exit_none)
qed

lemma prepare_memory_keeps:
  assumes "prepare_memory env sz p = (r, p1)"
  shows "ipc p1 = ipc p" "set (on_shmem_exit_list p1) \<subseteq> insert AnonymousShmemDetachCb (set (on_shmem_exit_list p))"
    "r = Inl e \<Longrightarrow> on_shmem_exit_list p1 = on_shmem_exit_list p"
  using assms by (auto simp: prepare_memory_def on_shmem_exit_def split: if_splits sum.splits prod.splits)

lemma create_phases [consumes 1, case_names early loop_error created]:
  assumes "PGSharedMemoryCreate env sz p = Some (r, p')"
  obtains (early) e where "r = Inl e" "ipc p' = ipc p" "on_shmem_exit_list p' = on_shmem_exit_list p"
  | (loop_error) dir sz1 sysvsize p1 e where "data_dir env = Some dir" "prepare_memory env sz p = (Inr (sz1, sysvsize), p1)"
      "create_loop env sysvsize (ucast (snd dir)) p1 = Some (Inl e, p')" "r = Inl e"
  | (created) dir sz1 sysvsize p1 a key p2 q where "data_dir env = Some dir" "prepare_memory env sz p = (Inr (sz1, sysvsize), p1)"
      "create_loop env sysvsize (ucast (snd dir)) p1 = Some (Inr (a, key), p2)"
      "finish_create env dir sz1 a key p2 = (q, p')" "r = Inr q" "MAXALIGN sizeof_PGShmemHeader < sz"
proof (cases "data_dir env")
  case None
  then show ?thesis using assms early by (auto simp: PGSharedMemoryCreate_def)
next
  case (Some dir)
  obtain x p1 where x: "prepare_memory env sz p = (x, p1)" by fastforce
  show ?thesis
  proof (cases "(huge_pages env = HUGE_PAGES_ON \<and> shared_memory_type env \<noteq> SHMEM_TYPE_MMAP) \<or> \<not> MAXALIGN sizeof_PGShmemHeader < sz")
    case True
    then show ?thesis using assms Some early by (auto simp: PGSharedMemoryCreate_def split: if_splits)
  next
    case False
    note body = assms [unfolded PGSharedMemoryCreate_def, simplified Some x option.case prod.case]
    show ?thesis
    proof (cases x)
      case (Inl e)
      then show ?thesis using body False early prepare_memory_keeps [OF x] by (auto split: if_splits)
    next
      case (Inr b)
      obtain sz1 sysvsize where b: "b = (sz1, sysvsize)" by (cases b)
      show ?thesis
      proof (cases "create_loop env sysvsize (ucast (snd dir)) p1")
        case None
        then show ?thesis using body False Inr b by (auto split: if_splits)
      next
        case (Some y)
        obtain z p2 where y: "y = (z, p2)" by (cases y)
        show ?thesis
        proof (cases z)
          case (Inl e)
          then show ?thesis using body False Inr b Some y x loop_error [OF \<open>data_dir env = Some dir\<close>] by (auto split: if_splits)
        next
          case (Inr ak)
          obtain a key where ak: "ak = (a, key)" by (cases ak)
          obtain q p3 where q: "finish_create env dir sz1 a key p2 = (q, p3)" by fastforce
          have "r = Inr q" "p' = p3"
            using body False \<open>x = Inr b\<close> b Some y Inr ak q by (auto split: if_splits)
          then show ?thesis
            using created [OF \<open>data_dir env = Some dir\<close>] x \<open>x = Inr b\<close> b Some y Inr ak q False by simp
        qed
      qed
    qed
  qed
qed


text \<open>
  C16: A successful start-up leaves exactly one new segment, at a key that was free, attached by the
  process and recorded in the lock file; its header identifies the data directory and starts
  allocation behind the header.  The memory is the anonymous mapping, with a copy of the
  header and the mapping's size, when mappings are used, and the segment itself otherwise.
\<close>

theorem PGSharedMemoryCreate_result:
  assumes "ipc_ok (ipc p)" "AnonymousShmem p = None" "PGSharedMemoryCreate env sz p = Some (Inr (place, hdr), p')"
  shows "\<exists>k a key sysvsize. trimmed env (ipc p) k \<and> by_key key k = None \<and>
    segs (ipc p') = \<lparr>seg_id = a, seg_key = key, seg_size = sysvsize, nattch = 1, dest = False, accessible = True,
      owned = True, seg_hdr = hdr\<rparr> # segs k \<and>
    attached (ipc p') = a # attached (ipc p) \<and> lock_file_line p' = Some (key, a) \<and>
    UsedShmemSegAddr p' = Some a \<and> UsedShmemSegID p' = scast key \<and>
    magic hdr = PGShmemMagic \<and> data_dir env = Some (device hdr, inode hdr) \<and> freeoffset hdr = 56 \<and>
    (if shared_memory_type env = SHMEM_TYPE_MMAP
     then \<exists>m. fst (CreateAnonymousSegment env sz) = Inr m \<and> place = AnonymousSegment (map_addr m) \<and>
       totalsize hdr = map_size m \<and> m \<in> set (mappings p') \<and> anon_hdr p' = Some hdr
     else place = SysvSegment a \<and> totalsize hdr = sz \<and> sysvsize = sz)"
  using assms(3)
proof (cases rule: create_phases)
  case (created dir sz1 sysvsize p1 a key p2 q)
  note p1 = prepare_memory_keeps [OF created(2)]
  obtain k where k: "trimmed env (ipc p) k" "loop_outcome sysvsize k p1 (Inr (a, key)) p2" "same_anon p1 p2"
    using create_loop_outcome [OF created(3)] assms(1) p1(1) by auto
  have ok: "ipc_ok k" "attached k = attached (ipc p)" using k(1) by (simp_all add: trimmed_def)
  obtain k2 where new: "shmget_new key sysvsize k = (Inr a, k2)" "shmat a k2 = (Inr a, ipc p2)" using k(2) by auto
  note full = new_attach_release(4) [OF ok(1) new]
  define old where "old = (case by_id a (ipc p2) of None \<Rightarrow> zero_hdr | Some s \<Rightarrow> seg_hdr s)"
  have fin: "hdr = new_header env dir sz1 old" "ipc p' = on_seg a (\<lambda>s. s\<lparr>seg_hdr := hdr\<rparr>) (ipc p2)"
    "UsedShmemSegAddr p' = Some a \<and> UsedShmemSegID p' = scast key" "lock_file_line p' = lock_file_line p2" "mappings p' = mappings p2"
    "(place, anon_hdr p') = (case AnonymousShmem p2 of None \<Rightarrow> (SysvSegment a, anon_hdr p2) | Some b \<Rightarrow> (AnonymousSegment b, Some hdr))"
    using created(4,5) by (auto simp: finish_create_def Let_def old_def split: option.splits)
  have header: "magic hdr = PGShmemMagic" "data_dir env = Some (device hdr, inode hdr)" "freeoffset hdr = 56" "totalsize hdr = sz1"
    using created(1) by (simp_all add: fin(1) new_header_def sizeof_PGShmemHeader_def MAXALIGN_def TYPEALIGN_def)
  have seg: "segs (ipc p') = \<lparr>seg_id = a, seg_key = key, seg_size = sysvsize, nattch = 1, dest = False, accessible = True,
      owned = True, seg_hdr = hdr\<rparr> # segs k" "attached (ipc p') = a # attached (ipc p)"
    unfolding fin(2) full using ok(2) by simp_all
  have "if shared_memory_type env = SHMEM_TYPE_MMAP
     then \<exists>m. fst (CreateAnonymousSegment env sz) = Inr m \<and> place = AnonymousSegment (map_addr m) \<and>
       sz1 = map_size m \<and> m \<in> set (mappings p') \<and> anon_hdr p' = Some hdr
     else place = SysvSegment a \<and> sz1 = sz \<and> sysvsize = sz"
    using created(2) k(3) fin(5,6) assms(2)
    by (auto simp: prepare_memory_def on_shmem_exit_def same_anon_def split: if_splits sum.splits prod.splits)
  then show ?thesis using k(1,2) shmget_new_Inr(1) [OF new(1)] seg fin(3,4) header by auto
qed simp_all


section \<open>Size and backing of the mapping\<close>

lemma hugepagesize_pos:
  assumes "0 \<le> huge_page_size env" "huge_page_size env < 2 ^ 31"
  shows "0 < fst (GetHugePageSize env)"
proof -
  have "of_int (huge_page_size env) * 1024 \<noteq> (0 :: u64)" if "huge_page_size env \<noteq> 0"
  proof
    assume "of_int (huge_page_size env) * 1024 = (0 :: u64)"
    then have "(of_int (huge_page_size env * 1024) :: u64) = 0" by simp
    then have "2 ^ 64 dvd huge_page_size env * 1024" by (simp only: word_of_int_eq_0_iff len64)
    moreover have "0 < huge_page_size env * 1024" "huge_page_size env * 1024 < 2 ^ 64" using assms that by simp_all
    ultimately show False using zdvd_imp_le by fastforce
  qed
  then show ?thesis by (auto simp: GetHugePageSize_def Let_def word_neq_0_conv)
qed

lemma round_alloc_eq:
  assumes "0 < n" "unat sz + unat n < 2 ^ 64"
  shows "unat (round_alloc n sz) = round_up (unat n) (unat sz)"
proof -
  let ?n = "unat n" and ?s = "unat sz"
  have n: "0 < ?n" using assms(1) by (simp add: word_less_nat_alt)
  show ?thesis
  proof (cases "sz mod n = 0")
    case True
    then have "?n dvd ?s" using unat_mod [of sz n] by (simp add: dvd_eq_mod_eq_0)
    then have "round_up ?n ?s = ?s" using n round_up_least round_up_bounds(1) by (simp add: le_antisym)
    then show ?thesis using True by (simp add: round_alloc_def)
  next
    case False
    have m: "unat (sz mod n) = ?s mod ?n" by (rule unat_mod)
    have "0 < unat (sz mod n)" using False by (simp add: unat_gt_0)
    then have lt: "?s mod ?n < ?n" "0 < ?s mod ?n" using n unfolding m by simp_all
    have d: "unat (n - sz mod n) = ?n - ?s mod ?n" using lt m by (subst unat_sub) (simp_all add: word_le_nat_alt)
    have "unat (round_alloc n sz) = ?s + (?n - ?s mod ?n)"
      using False d assms(2) by (simp add: round_alloc_def unat_plus_small)
    also have "\<dots> = ?s div ?n * ?n + ?n" using lt(1) by (simp add: minus_mod_eq_div_mult [symmetric])
    also have "\<dots> = round_up ?n ?s"
    proof (rule le_antisym)
      have "?s \<le> ?s div ?n * ?n + ?n" using div_mult_mod_eq [of ?s ?n] lt(1) by linarith
      then show "round_up ?n ?s \<le> ?s div ?n * ?n + ?n" using n by (intro round_up_least) (simp_all add: dvd_add)
      obtain r where r: "round_up ?n ?s = ?n * r" using round_up_dvd [of ?n ?s] by (rule dvdE)
      have "?n * (?s div ?n) < ?n * r"
        using round_up_bounds(1) [OF n, of ?s] lt(2) mult_div_mod_eq [of ?n ?s] unfolding r by linarith
      then have "Suc (?s div ?n) \<le> r" by simp
      then have "?n * Suc (?s div ?n) \<le> ?n * r" by (rule mult_le_mono2)
      then show "?s div ?n * ?n + ?n \<le> round_up ?n ?s" unfolding r by (simp add: mult.commute)
    qed
    finally show ?thesis .
  qed
qed

lemma map_memory_Some:
  "map_memory env sz flags fd = Some m \<Longrightarrow> map_size m = sz \<and> map_flags m = flags \<and> map_fd m = fd"
  by (auto simp: map_memory_def split: sum.splits)

text \<open>
  C20: The mapping is never smaller than requested.  With huge pages or FBMM its size is the request
  rounded up to the page size and failure is final; only the opportunistic setting falls back to
  ordinary pages, with the size requested, and reports so.
\<close>

theorem CreateAnonymousSegment_size:
  assumes "CreateAnonymousSegment env sz = (Inr m, status)" "0 \<le> huge_page_size env" "huge_page_size env < 2 ^ 31"
    "unat sz + unat (fst (GetHugePageSize env)) < 2 ^ 64" "unat sz + 4096 < 2 ^ 64"
  shows "unat sz \<le> unat (map_size m) \<and>
    (case huge_pages env of
       FBMM_ON \<Rightarrow> unat (map_size m) = round_up 4096 (unat sz) \<and> status = Some True
     | HUGE_PAGES_ON \<Rightarrow> unat (map_size m) = round_up (unat (fst (GetHugePageSize env))) (unat sz) \<and> status = Some True
     | HUGE_PAGES_TRY \<Rightarrow>
         unat (map_size m) = (if status = Some True then round_up (unat (fst (GetHugePageSize env))) (unat sz) else unat sz)
     | _ \<Rightarrow> map_size m = sz \<and> status = Some False)"
proof -
  obtain hps flags where h: "GetHugePageSize env = (hps, flags)" by fastforce
  note pos = hugepagesize_pos [OF assms(2,3), unfolded h fst_conv]
  note big = round_alloc_eq [OF pos assms(4) [unfolded h fst_conv]]
  have small: "unat (round_alloc 4096 sz) = round_up 4096 (unat sz)"
    using round_alloc_eq [of 4096 sz] assms(5) by simp
  have up: "unat sz \<le> round_up 4096 (unat sz)" "unat sz \<le> round_up (unat hps) (unat sz)"
    using pos by (simp_all add: round_up_bounds word_less_nat_alt)
  show ?thesis
    using assms(1) big small up unfolding CreateAnonymousSegment_def
    by (cases "huge_pages env"; cases "open_tmpfile env")
      (auto simp: h Let_def dest!: map_memory_Some split: option.splits if_splits)
qed

text \<open>
  What a mapping is backed by, after mmap(2): with \<^verbatim>\<open>MAP_ANONYMOUS\<close> the mapping is not backed by any
  file and the descriptor is ignored.
\<close>

definition backing :: "mapping \<Rightarrow> nat option" where
  "backing m = (if map_flags m AND MAP_ANONYMOUS \<noteq> 0 then None else map_fd m)"

text \<open>
  C21: The setting for FBMM creates a file in the FBMM mount and passes it to \<^verbatim>\<open>mmap\<close>, but with the flags
  of anonymous memory: the mapping is not backed by the file.
\<close>

theorem fbmm_mapping_is_anonymous:
  assumes "huge_pages env = FBMM_ON" "CreateAnonymousSegment env sz = (Inr m, status)"
  shows "\<exists>fd. open_tmpfile env = Inr fd \<and> map_fd m = Some fd \<and> backing m = None"
proof -
  obtain fd where fd: "open_tmpfile env = Inr fd"
    using assms by (cases "open_tmpfile env") (auto simp: CreateAnonymousSegment_def Let_def split: prod.splits)
  then have "map_flags m = PG_MMAP_FLAGS" "map_fd m = Some fd"
    using assms by (auto simp: CreateAnonymousSegment_def Let_def dest!: map_memory_Some split: prod.splits option.splits)
  then show ?thesis using fd by (simp add: backing_def PG_MMAP_FLAGS_def MAP_SHARED_def MAP_ANONYMOUS_def)
qed

section \<open>Witnesses\<close>

text \<open>A system with a dead segment of the data directory at its key and a live one of another program.\<close>

definition demo_hdr :: "u64 \<Rightarrow> PGShmemHeader" where
  "demo_hdr ino = zero_hdr\<lparr>magic := PGShmemMagic, device := 1, inode := ino\<rparr>"

definition demo_ipc :: ipc where
  "demo_ipc = \<lparr>segs =
      [\<lparr>seg_id = 3, seg_key = 5, seg_size = 56, nattch = 0, dest = False, accessible = True, owned = True, seg_hdr = demo_hdr 5\<rparr>,
       \<lparr>seg_id = 2, seg_key = 8, seg_size = 4096, nattch = 4, dest = False, accessible = True, owned = True, seg_hdr = demo_hdr 8\<rparr>],
    next_id = 4, attached = [], shm_min = 1, shm_max = 0x100000000, shm_refuse = None, at_refuse = None\<rparr>"

definition demo_env :: pg_env where
  "demo_env = \<lparr>huge_pages = FBMM_ON, shared_memory_type = SHMEM_TYPE_MMAP, huge_page_size = 0, data_dir = Some (1, 5),
     meminfo = None, open_tmpfile = Inr 7, ftruncate = (\<lambda>_ _. None), mmap = (\<lambda>_ _ _. Inr 0x7f0000000000), my_pid = 99\<rparr>"

definition demo_proc :: pg_proc where
  "demo_proc = \<lparr>ipc = demo_ipc, UsedShmemSegID = 0, UsedShmemSegAddr = None, AnonymousShmem = None, AnonymousShmemSize = 0,
     anon_hdr = None, mappings = [], on_shmem_exit_list = [], lock_file_line = None, huge_pages_status = None, dsm_cleaned = []\<rparr>"

lemma demo_ipc_ok: "ipc_ok demo_ipc"
  by (simp add: ipc_ok_def demo_ipc_def)

lemmas sysv_eval =
  PGSharedMemoryCreate_def prepare_memory_def CreateAnonymousSegment_def GetHugePageSize_def map_memory_def round_alloc_def
  on_shmem_exit_def create_loop.simps InternalIpcMemoryCreate_def handle_collision_def PGSharedMemoryAttach_def detach_if_def
  finish_create_def new_header_def key_collision_def sizeof_PGShmemHeader_def MAXALIGN_def TYPEALIGN_def
  shmget_new_def shmget_old_def shmctl_stat_def shmctl_rmid_def shmat_def shmdt_def by_key_def by_id_def on_seg_def drop_dead_def

lemma demo_create: "\<exists>place hdr p'. PGSharedMemoryCreate demo_env 8192 demo_proc = Some (Inr (place, hdr), p')"
  by (simp add: sysv_eval demo_env_def demo_proc_def demo_ipc_def demo_hdr_def zero_hdr_def PGShmemMagic_def Let_def)

theorem PGSharedMemoryIsInUse_exact_witness:
  "PGSharedMemoryIsInUse (Some (1, 8)) 2 demo_ipc = (True, demo_ipc) \<and>
   PGSharedMemoryIsInUse (Some (1, 5)) 3 demo_ipc = (False, demo_ipc)"
  using PGSharedMemoryIsInUse_exact [OF demo_ipc_ok, of "Some (1, 8)" 2] PGSharedMemoryIsInUse_exact [OF demo_ipc_ok, of "Some (1, 5)" 3]
  by (simp add: demo_ipc_def by_id_def of_data_dir_def demo_hdr_def zero_hdr_def)

theorem PGSharedMemoryCreate_returns_witness: "\<exists>r. PGSharedMemoryCreate demo_env 8192 demo_proc = Some r"
  by (rule PGSharedMemoryCreate_returns) (simp_all add: demo_proc_def demo_ipc_ok, simp add: demo_ipc_def)


theorem PGSharedMemoryCreate_result_witness:
  "\<exists>place hdr p'. PGSharedMemoryCreate demo_env 8192 demo_proc = Some (Inr (place, hdr), p') \<and> magic hdr = PGShmemMagic \<and>
     freeoffset hdr = 56"
proof -
  obtain place hdr p' where run: "PGSharedMemoryCreate demo_env 8192 demo_proc = Some (Inr (place, hdr), p')"
    using demo_create by blast
  have "ipc_ok (ipc demo_proc)" "AnonymousShmem demo_proc = None" using demo_ipc_ok by (simp_all add: demo_proc_def)
  from PGSharedMemoryCreate_result [OF this run] run show ?thesis by auto
qed


lemma demo_mapping: "CreateAnonymousSegment demo_env 8193 =
    (Inr \<lparr>map_addr = 0x7f0000000000, map_size = 12288, map_flags = PG_MMAP_FLAGS, map_fd = Some 7\<rparr>, Some True)"
  by (simp add: CreateAnonymousSegment_def GetHugePageSize_def map_memory_def round_alloc_def demo_env_def Let_def)

theorem CreateAnonymousSegment_size_witness:
  "CreateAnonymousSegment demo_env 8193 =
     (Inr \<lparr>map_addr = 0x7f0000000000, map_size = 12288, map_flags = PG_MMAP_FLAGS, map_fd = Some 7\<rparr>, Some True) \<and>
   (8193 :: nat) \<le> 12288"
  using CreateAnonymousSegment_size [OF demo_mapping] demo_mapping
  by (simp add: demo_env_def GetHugePageSize_def Let_def)

theorem fbmm_mapping_is_anonymous_witness:
  "backing \<lparr>map_addr = 0x7f0000000000, map_size = 12288, map_flags = PG_MMAP_FLAGS, map_fd = Some 7\<rparr> = None"
  using fbmm_mapping_is_anonymous [OF _ demo_mapping] by (simp add: demo_env_def)

end
