(* ===== verification/Runner_Base.thy ===== *)
theory Runner_Base
  imports C_Numbers "HOL-Library.Monad_Syntax"
begin

text \<open>
  What the commands of the experiment runner (\<^verbatim>\<open>runner/src\<close>) share: the conversions of the Rust
  standard library that they use, the actions that they ask a remote machine for, and what carrying
  out a list of such actions does.  The runner is built without optimisation, as its \<^verbatim>\<open>main.rs\<close>
  recommends, so arithmetic on \<^verbatim>\<open>usize\<close> that overflows panics; \<open>None\<close> stands for a panic.
\<close>

section \<open>Numbers and strings of Rust\<close>

definition is_digit :: "char \<Rightarrow> bool" where
  "is_digit c \<longleftrightarrow> (case c_digit c of Some d \<Rightarrow> d < 10 | None \<Rightarrow> False)"

text \<open>\<^verbatim>\<open>str::parse\<close> at an unsigned type of \<open>w\<close> bits.\<close>

definition parse_uint :: "nat \<Rightarrow> string \<Rightarrow> nat option" where
  "parse_uint w s =
     (let t = (if s \<noteq> [] \<and> hd s = CHR ''+'' then tl s else s);
          v = digits_value 10 (take_digits 10 t)
      in if t = [] \<or> \<not> list_all is_digit t \<or> 2 ^ w \<le> v then None else Some v)"

abbreviation parse_usize :: "string \<Rightarrow> nat option" where
  "parse_usize \<equiv> parse_uint 64"

definition usize_checked :: "nat \<Rightarrow> nat option" where
  "usize_checked n = (if n < 2 ^ 64 then Some n else None)"

definition usize_minus :: "nat \<Rightarrow> nat \<Rightarrow> nat option" where
  "usize_minus a b = (if a < b then None else Some (a - b))"

text \<open>A shift panics when its distance is not below the width; the bits that leave are lost.\<close>

definition usize_shl :: "nat \<Rightarrow> nat \<Rightarrow> nat option" where
  "usize_shl a k = (if k < 64 then Some (a * 2 ^ k mod 2 ^ 64) else None)"

fun split_on :: "char \<Rightarrow> string \<Rightarrow> string list" where
  "split_on c [] = [[]]"
| "split_on c (x # xs) =
     (if x = c then [] # split_on c xs
      else case split_on c xs of [] \<Rightarrow> [[x]] | w # ws \<Rightarrow> (x # w) # ws)"

fun join :: "string \<Rightarrow> string list \<Rightarrow> string" where
  "join sep [] = []"
| "join sep [x] = x"
| "join sep (x # y # ys) = x @ sep @ join sep (y # ys)"

definition dq :: string where "dq = [CHR 0x22]"

section \<open>Actions\<close>

text \<open>
  \<open>Sh\<close> and \<open>ShIn\<close> are commands of a remote shell, the second in a given directory.  Commands whose
  effect on the machine matters are kept apart: \<open>Tee v f\<close> is \<^verbatim>\<open>echo v | sudo tee f\<close>, \<open>Insmod\<close> and
  \<open>Mount\<close> are the commands of that name on the mount point \<^verbatim>\<open>daxtmp/\<close>, and the four \<open>Grub\<close> actions
  edit the boot options: \<open>GrubClear\<close> and \<open>GrubAppend\<close> write an edited \<^verbatim>\<open>/etc/default/grub\<close> to
  \<^verbatim>\<open>/tmp/grub\<close>, \<open>GrubInstall\<close> moves it back and \<open>UpdateGrub\<close> is \<^verbatim>\<open>update-grub2\<close>.  \<open>Lib\<close> is a call of
  a library that is not part of the repository.  \<open>Timed\<close> marks what the runner times as the
  workload.
\<close>

datatype action =
    Connect
  | Reconnect
  | Reboot
  | Sh string
  | ShIn string string
  | Tee string string
  | Insmod string
  | Mount string
  | GrubClear
  | GrubAppend string
  | GrubInstall
  | UpdateGrub
  | Spawn string
  | Joined string
  | Background string nat string
  | UntilFails string
  | Sleep nat
  | Lib string "string list"
  | Timed action
  | Abort string

section \<open>The boot options\<close>

text \<open>
  The options are the text between the quotes of \<^verbatim>\<open>GRUB_CMDLINE_LINUX\<close>.  A \<^verbatim>\<open>sed\<close> command that
  deletes every match of an expression works from left to right; a matcher returns what is left
  behind a match at the start of its argument.  (A match is never empty, so the inner test holds.)
\<close>

function sed_delete :: "(string \<Rightarrow> string option) \<Rightarrow> string \<Rightarrow> string" where
  "sed_delete f [] = []"
| "sed_delete f (c # cs) =
     (case f (c # cs) of
        Some r \<Rightarrow> if length r \<le> length cs then sed_delete f r else c # sed_delete f cs
      | None \<Rightarrow> c # sed_delete f cs)"
  by pat_completeness auto
termination
  by (relation "measure (\<lambda>(f, s). length s)") simp_all

definition size_unit :: "char \<Rightarrow> bool" where
  "size_unit c \<longleftrightarrow> c = CHR ''K'' \<or> c = CHR ''M'' \<or> c = CHR ''G''"

definition match_memmap :: "string \<Rightarrow> string option" where
  "match_memmap s =
     (if take 8 s \<noteq> '' memmap='' then None
      else case dropWhile is_digit (drop 8 s) of
             u # b # t \<Rightarrow>
               if size_unit u \<and> b = CHR ''!'' then
                 (case dropWhile is_digit t of
                    v # r \<Rightarrow> if size_unit v then Some r else None
                  | [] \<Rightarrow> None)
               else None
           | _ \<Rightarrow> None)"

definition match_tpp :: "string \<Rightarrow> string option" where
  "match_tpp s = (if take 7 s = '' do_tpp'' then Some (drop 7 s) else None)"

definition match_maxcpus :: "string \<Rightarrow> string option" where
  "match_maxcpus s = (if take 9 s = '' maxcpus='' then Some (dropWhile is_digit (drop 9 s)) else None)"

definition grub_clear :: "string \<Rightarrow> string" where
  "grub_clear s = sed_delete match_maxcpus (sed_delete match_tpp (sed_delete match_memmap s))"

text \<open>The options that the runner appends.\<close>

definition memmap_option :: "nat \<Rightarrow> nat \<Rightarrow> string" where
  "memmap_option sz start = '' memmap='' @ decimal sz @ ''G!'' @ decimal start @ ''G''"

definition tpp_option :: string where
  "tpp_option = '' do_tpp maxcpus=8''"

section \<open>Carrying out actions\<close>

record host_state =
  grub_tmp :: string
  grub_file :: string
  grub_cfg :: string
  booted :: string
  sysfs :: "string \<Rightarrow> string option"
  mounts :: "string list"
  modules :: "string list"

fun effect :: "action \<Rightarrow> host_state \<Rightarrow> host_state" where
  "effect GrubClear w = w\<lparr>grub_tmp := grub_clear (grub_file w)\<rparr>"
| "effect (GrubAppend opts) w = w\<lparr>grub_tmp := grub_file w @ opts\<rparr>"
| "effect GrubInstall w = w\<lparr>grub_file := grub_tmp w\<rparr>"
| "effect UpdateGrub w = w\<lparr>grub_cfg := grub_file w\<rparr>"
| "effect Reboot w = w\<lparr>booted := grub_cfg w, sysfs := Map.empty, mounts := [], modules := []\<rparr>"
| "effect (Tee v f) w = w\<lparr>sysfs := (sysfs w)(f \<mapsto> v)\<rparr>"
| "effect (Insmod m) w = w\<lparr>modules := m # modules w\<rparr>"
| "effect (Mount args) w = w\<lparr>mounts := args # mounts w\<rparr>"
| "effect (Timed a) w = effect a w"
| "effect _ w = w"

text \<open>
  The log has every action that was tried, newest first, with the state of the machine before it.
  A host decides, from the log, whether an action succeeds.
\<close>

record run_state =
  world :: host_state
  run_log :: "(action \<times> host_state) list"

type_synonym host = "(action \<times> host_state) list \<Rightarrow> action \<Rightarrow> bool"

definition tried :: "action \<Rightarrow> run_state \<Rightarrow> run_state" where
  "tried a s = s\<lparr>run_log := (a, world s) # run_log s\<rparr>"

definition performed :: "action \<Rightarrow> run_state \<Rightarrow> run_state" where
  "performed a s = (tried a s)\<lparr>world := effect a (world s)\<rparr>"

text \<open>
  The first action that fails ends the run with an error, as \<^verbatim>\<open>?\<close> does, with these exceptions: the
  result of \<^verbatim>\<open>sudo reboot\<close> is ignored; \<^verbatim>\<open>connect_and_setup_host\<close> retries \<open>Reconnect\<close> until it
  succeeds; and \<open>UntilFails\<close> repeats a command until it fails.
\<close>

datatype on_result = Stop string | Retry | Repeat | Ignore | Needed

fun treats :: "action \<Rightarrow> on_result" where
  "treats (Abort e) = Stop e"
| "treats Reconnect = Retry"
| "treats (UntilFails c) = Repeat"
| "treats Reboot = Ignore"
| "treats _ = Needed"

text \<open>One action: the run ends, or goes on with further actions.\<close>

fun exec_step ::
  "host \<Rightarrow> action list \<Rightarrow> run_state \<Rightarrow> ((string + unit) \<times> run_state) + (action list \<times> run_state)" where
  "exec_step h [] s = Inl (Inr (), s)"
| "exec_step h (a # as) s =
     (case treats a of
        Stop e \<Rightarrow> Inl (Inl e, s)
      | Retry \<Rightarrow> Inr (if h (run_log s) a then (as, performed a s) else (a # as, tried a s))
      | Repeat \<Rightarrow> Inr (if h (run_log s) a then (a # as, performed a s) else (as, tried a s))
      | Ignore \<Rightarrow> Inr (as, if h (run_log s) a then performed a s else tried a s)
      | Needed \<Rightarrow>
          if h (run_log s) a then Inr (as, performed a s) else Inl (Inl ''command failed'', tried a s))"

partial_function (option) exec ::
  "host \<Rightarrow> action list \<Rightarrow> run_state \<Rightarrow> ((string + unit) \<times> run_state) option" where
  "exec h as s =
     (case exec_step h as s of
        Inl r \<Rightarrow> Some r
      | Inr x \<Rightarrow> exec h (fst x) (snd x))"

section \<open>Lemmas on numbers\<close>

lemma is_digit_char_of: "d < 10 \<Longrightarrow> is_digit (char_of (48 + d :: nat))"
  by (simp add: is_digit_def cnum_simps)

lemma list_all_digits_decimal: "list_all is_digit (decimal n)"
  unfolding decimal_dec_digits list_all_iff using dec_digits_less is_digit_char_of by auto

lemma decimal_nonempty [simp]: "decimal n \<noteq> []"
  by (simp add: decimal_dec_digits dec_digits_nonempty)

lemma decimal_digits: "c \<in> set (decimal n) \<Longrightarrow> is_digit c"
  using list_all_digits_decimal [of n] by (simp add: list_all_iff)

lemma decimal_no_sign: "hd (decimal n) \<noteq> CHR ''+''"
  using decimal_digits [OF hd_in_set [OF decimal_nonempty], of n]
  by (auto simp: is_digit_def c_digit_def)

lemma parse_uint_decimal: "n < 2 ^ w \<Longrightarrow> parse_uint w (decimal n) = Some n"
proof -
  have "take_digits 10 (decimal n) = dec_digits n"
    unfolding decimal_dec_digits by (rule take_digits_map) (rule dec_digits_less)
  then show "n < 2 ^ w \<Longrightarrow> parse_uint w (decimal n) = Some n"
    using decimal_no_sign [of n]
    by (simp add: parse_uint_def Let_def list_all_digits_decimal digits_value_dec_digits)
qed

lemma parse_uint_bound: "parse_uint w s = Some n \<Longrightarrow> n < 2 ^ w"
  by (simp add: parse_uint_def Let_def split: if_splits)

section \<open>Lemmas on boot options\<close>

lemma take_before_space:
  assumes "x \<noteq> []" "CHR '' '' \<notin> set (tl pat)" and n: "length pat = n"
  shows "take n (x @ CHR '' '' # y) = pat \<longleftrightarrow> take n x = pat"
proof (cases "n \<le> length x")
  case False
  then have len: "length x < length pat" using n by simp
  have "take (length pat) (x @ CHR '' '' # y) \<noteq> pat"
  proof
    assume eq: "take (length pat) (x @ CHR '' '' # y) = pat"
    from len have "pat ! length x = CHR '' ''" by (subst eq [symmetric]) (simp add: nth_append)
    moreover have "pat ! length x = tl pat ! (length x - 1)" using assms(1) len by (cases pat; cases x) simp_all
    moreover have "tl pat ! (length x - 1) \<in> set (tl pat)" using assms(1) len by (intro nth_mem) (cases x, auto)
    ultimately show False using assms(2) by simp
  qed
  moreover have "take (length pat) x \<noteq> pat" using len by (metis length_take min_less_iff_conj nat_neq_iff)
  ultimately show ?thesis by (simp only: n [symmetric])
qed simp

text \<open>
  The interface of a matcher that does not look past a space.  Deleting its matches from options
  works option by option.
\<close>

locale option_matcher =
  fixes f :: "string \<Rightarrow> string option"
  assumes stops: "x \<noteq> [] \<Longrightarrow> f (x @ CHR '' '' # y) = map_option (\<lambda>r. r @ CHR '' '' # y) (f x)"
begin

lemma sed_delete_space: "sed_delete f (x @ CHR '' '' # y) = sed_delete f x @ sed_delete f (CHR '' '' # y)"
proof (induction x rule: length_induct)
  case (1 x)
  show ?case
  proof (cases x)
    case (Cons c cs)
    have f: "f (c # cs @ CHR '' '' # y) = map_option (\<lambda>r. r @ CHR '' '' # y) (f (c # cs))" using stops [of "c # cs"] by simp
    have IH: "length z \<le> length cs \<Longrightarrow> sed_delete f (z @ CHR '' '' # y) = sed_delete f z @ sed_delete f (CHR '' '' # y)" for z
      using 1 Cons by simp
    show ?thesis
    proof (cases "f (c # cs)")
      case None
      with f IH [of cs] Cons show ?thesis by simp
    next
      case (Some r)
      with f IH [of cs] IH [of r] Cons show ?thesis by (cases "length r \<le> length cs") simp_all
    qed
  qed simp
qed

lemma sed_delete_option:
  assumes "sed_delete f g = g" "y = [] \<or> hd y = CHR '' ''"
  shows "sed_delete f (g @ y) = g @ sed_delete f y"
  using sed_delete_space [of g "tl y"] assms by (cases y) auto

end

lemma dropWhile_before_space: "dropWhile is_digit (x @ CHR '' '' # y) = dropWhile is_digit x @ CHR '' '' # y"
  by (induction x) (simp_all add: is_digit_def c_digit_def)

interpretation maxcpus: option_matcher match_maxcpus
proof unfold_locales
  fix x y :: string
  assume "x \<noteq> []"
  then have eq: "take 9 (x @ CHR '' '' # y) = '' maxcpus='' \<longleftrightarrow> take 9 x = '' maxcpus=''"
    by (intro take_before_space) simp_all
  show "match_maxcpus (x @ CHR '' '' # y) = map_option (\<lambda>r. r @ CHR '' '' # y) (match_maxcpus x)"
  proof (cases "take 9 x = '' maxcpus=''")
    case True
    then have "length (take 9 x) = 9" by simp
    then have "9 \<le> length x" by simp
    then show ?thesis using True by (simp add: match_maxcpus_def dropWhile_before_space)
  qed (use eq in \<open>simp add: match_maxcpus_def\<close>)
qed

interpretation tpp: option_matcher match_tpp
proof unfold_locales
  fix x y :: string
  assume "x \<noteq> []"
  then have eq: "take 7 (x @ CHR '' '' # y) = '' do_tpp'' \<longleftrightarrow> take 7 x = '' do_tpp''"
    by (intro take_before_space) simp_all
  show "match_tpp (x @ CHR '' '' # y) = map_option (\<lambda>r. r @ CHR '' '' # y) (match_tpp x)"
  proof (cases "take 7 x = '' do_tpp''")
    case True
    then have "length (take 7 x) = 7" by simp
    then have "7 \<le> length x" by simp
    then show ?thesis using True by (simp add: match_tpp_def)
  qed (use eq in \<open>simp add: match_tpp_def\<close>)
qed

interpretation memmap: option_matcher match_memmap
proof unfold_locales
  fix x y :: string
  assume "x \<noteq> []"
  then have eq: "take 8 (x @ CHR '' '' # y) = '' memmap='' \<longleftrightarrow> take 8 x = '' memmap=''"
    by (intro take_before_space) simp_all
  show "match_memmap (x @ CHR '' '' # y) = map_option (\<lambda>r. r @ CHR '' '' # y) (match_memmap x)"
  proof (cases "take 8 x = '' memmap=''")
    case True
    then have "length (take 8 x) = 8" by simp
    then have len: "8 \<le> length x" by simp
    have unit: "\<not> size_unit (CHR '' '')" by (simp add: size_unit_def)
    show ?thesis
      using True len unit
      by (auto simp: match_memmap_def dropWhile_before_space Cons_eq_append_conv append_eq_Cons_conv
          simp del: dropWhile_eq_Nil_conv split: list.splits)
  qed (use eq in \<open>simp add: match_memmap_def\<close>)
qed

text \<open>Boot options without anything that the runner would delete.\<close>

definition clean_options :: "string \<Rightarrow> bool" where
  "clean_options g \<longleftrightarrow>
     sed_delete match_memmap g = g \<and> sed_delete match_tpp g = g \<and> sed_delete match_maxcpus g = g"

lemma dropWhile_decimal: "\<not> is_digit c \<Longrightarrow> dropWhile is_digit (decimal n @ c # y) = c # y"
  using decimal_digits by (subst dropWhile_append2) simp_all

lemma match_memmap_option: "match_memmap (memmap_option a b @ y) = Some y"
proof -
  have "\<not> is_digit (CHR ''G'')" by (simp add: is_digit_def c_digit_def)
  then show ?thesis by (simp add: match_memmap_def memmap_option_def dropWhile_decimal size_unit_def)
qed

lemma sed_delete_memmaps:
  "sed_delete match_memmap (concat (map (\<lambda>(a, b). memmap_option a b) rs) @ y) = sed_delete match_memmap y"
proof (induction rs)
  case (Cons r rs)
  obtain a b where r: "r = (a, b)" by fastforce
  let ?y = "concat (map (\<lambda>(a, b). memmap_option a b) rs) @ y"
  obtain c cs where c: "memmap_option a b @ ?y = c # cs" by (auto simp: memmap_option_def)
  have "length ?y \<le> length cs" using arg_cong [OF c, of length] by (simp add: memmap_option_def)
  then have "sed_delete match_memmap (c # cs) = sed_delete match_memmap ?y"
    using match_memmap_option [of a b ?y] unfolding c by simp
  then show ?case using Cons.IH c r by simp
qed simp

lemma sed_delete_tpp_option:
  "sed_delete match_memmap tpp_option = tpp_option"
  "sed_delete match_tpp tpp_option = '' maxcpus=8''"
  "sed_delete match_maxcpus '' maxcpus=8'' = []"
  by (simp_all add: tpp_option_def match_memmap_def match_tpp_def match_maxcpus_def is_digit_def c_digit_def)

lemma clear_added_options:
  assumes "clean_options g"
  shows "grub_clear (g @ concat (map (\<lambda>(a, b). memmap_option a b) rs) @ (if tpp then tpp_option else [])) = g"
proof -
  let ?t = "if tpp then tpp_option else []"
  let ?m = "concat (map (\<lambda>(a, b). memmap_option a b) rs)"
  have g: "sed_delete match_memmap g = g" "sed_delete match_tpp g = g" "sed_delete match_maxcpus g = g"
    using assms by (simp_all add: clean_options_def)
  have m: "?m @ ?t = [] \<or> hd (?m @ ?t) = CHR '' ''"
    by (cases rs) (auto simp: memmap_option_def tpp_option_def)
  have "sed_delete match_memmap (g @ ?m @ ?t) = g @ ?t"
    using memmap.sed_delete_option [OF g(1) m] by (simp add: sed_delete_memmaps sed_delete_tpp_option)
  moreover have "sed_delete match_tpp (g @ ?t) = g @ (if tpp then '' maxcpus=8'' else [])"
    using tpp.sed_delete_option [OF g(2), of ?t] sed_delete_tpp_option(2) by (simp add: tpp_option_def)
  moreover have "sed_delete match_maxcpus (g @ (if tpp then '' maxcpus=8'' else [])) = g"
    using maxcpus.sed_delete_option [OF g(3), of "if tpp then '' maxcpus=8'' else []"]
    by (cases tpp) (simp_all add: sed_delete_tpp_option(3) del: sed_delete.simps(2))
  ultimately show ?thesis by (simp add: grub_clear_def)
qed

section \<open>Lemmas on runs\<close>

lemma treats_loops [simp]:
  "treats a = Retry \<longleftrightarrow> a = Reconnect" "treats a = Ignore \<longleftrightarrow> a = Reboot"
  by (cases a; simp)+

lemma treats_repeat: "treats a = Repeat \<Longrightarrow> effect a w = w"
  by (cases a) simp_all

lemma run_log_simps [simp]:
  "run_log (tried a s) = (a, world s) # run_log s" "world (tried a s) = world s"
  "run_log (performed a s) = (a, world s) # run_log s" "world (performed a s) = effect a (world s)"
  by (simp_all add: tried_def performed_def)

text \<open>
  On a host whose reboots take place, the state before any action of the log is the effect of the
  actions before it in the list.
\<close>

definition planned :: "action list \<Rightarrow> host_state \<Rightarrow> action \<times> host_state \<Rightarrow> bool" where
  "planned as w e \<longleftrightarrow> (\<exists>pre post. as = pre @ fst e # post \<and> snd e = fold effect pre w)"

lemma planned_Cons: "planned as (effect a w) e \<Longrightarrow> planned (a # as) w e"
  unfolding planned_def by (metis append_Cons fold_simps(2))

lemma planned_first: "planned (a # as) w (a, w)"
  unfolding planned_def by (intro exI [of _ "[]"] exI [of _ as]) simp

lemma exec_invariant [consumes 1, case_names start step stop]:
  assumes "exec h as s = Some (r, s')"
    and start: "I as s"
    and step: "\<And>as s as' s'. exec_step h as s = Inr (as', s') \<Longrightarrow> I as s \<Longrightarrow> I as' s'"
    and stop: "\<And>as s r s'. exec_step h as s = Inl (r, s') \<Longrightarrow> I as s \<Longrightarrow> Q r s'"
  shows "Q r s'"
proof -
  have "h' = h \<longrightarrow> I as s \<longrightarrow> Q (fst y) (snd y)" if "exec h' as s = Some y" for h' as s y
  proof (rule exec.raw_induct [OF _ that], intro impI, goal_cases)
    case (1 exec' h' as s y)
    show ?case
    proof (cases "exec_step h as s")
      case (Inl x)
      then show ?thesis using 1(2,3,4) stop by (cases x) auto
    next
      case (Inr x)
      then show ?thesis using 1(1) [of h "fst x" "snd x" y] 1(2,3,4) step by (cases x) auto
    qed
  qed
  from this [OF assms(1)] start show ?thesis by simp
qed

lemma planned_step:
  assumes "exec_step h as s = Inr (as', s')" "\<forall>l. h l Reboot"
  shows "planned as' (world s') e \<Longrightarrow> planned as (world s) e"
    and "e \<in> set (run_log s') \<Longrightarrow> e \<in> set (run_log s) \<or> planned as (world s) e"
proof -
  obtain a t where as: "as = a # t" using assms(1) by (cases as) auto
  have same: "effect a w = w" if "treats a = Retry \<or> treats a = Repeat" for w
    using that treats_repeat by auto
  have "(as' = t \<and> world s' = effect a (world s) \<or> as' = as \<and> world s' = world s) \<and>
      run_log s' = (a, world s) # run_log s"
    using assms same unfolding as by (auto split: on_result.splits if_splits)
  then show "planned as' (world s') e \<Longrightarrow> planned as (world s) e"
    "e \<in> set (run_log s') \<Longrightarrow> e \<in> set (run_log s) \<or> planned as (world s) e"
    using planned_Cons [of t a "world s" e] planned_first [of a t "world s"] unfolding as by auto
qed

lemma planned_stop:
  assumes "exec_step h as s = Inl (r, s')" "e \<in> set (run_log s')"
  shows "e \<in> set (run_log s) \<or> planned as (world s) e"
  using assms planned_first by (cases as) (auto split: on_result.splits if_splits)

lemma exec_log:
  assumes "exec h as s = Some (r, s')" "\<forall>l. h l Reboot" "e \<in> set (run_log s')"
  shows "e \<in> set (run_log s) \<or> planned as (world s) e"
proof -
  let ?P = "e \<in> set (run_log s) \<or> planned as (world s) e"
  have "e \<in> set (run_log s') \<longrightarrow> ?P"
  proof (rule exec_invariant [OF assms(1), where I = "\<lambda>as1 s1. e \<in> set (run_log s1) \<or> planned as1 (world s1) e \<longrightarrow> ?P"])
    show "\<And>as1 s1 as2 s2. exec_step h as1 s1 = Inr (as2, s2) \<Longrightarrow>
        e \<in> set (run_log s1) \<or> planned as1 (world s1) e \<longrightarrow> ?P \<Longrightarrow>
        e \<in> set (run_log s2) \<or> planned as2 (world s2) e \<longrightarrow> ?P"
      using planned_step assms(2) by blast
    show "\<And>as1 s1 r s2. exec_step h as1 s1 = Inl (r, s2) \<Longrightarrow>
        e \<in> set (run_log s1) \<or> planned as1 (world s1) e \<longrightarrow> ?P \<Longrightarrow> e \<in> set (run_log s2) \<longrightarrow> ?P"
      using planned_stop by blast
  qed simp
  then show ?thesis using assms(3) by simp
qed

text \<open>
  A run returns on a host where, from some moment on, connections succeed and the servers that
  \<open>UntilFails\<close> waits for are gone.
\<close>

definition settles :: "host \<Rightarrow> bool" where
  "settles h \<longleftrightarrow> (\<exists>n. \<forall>l. n \<le> length l \<longrightarrow> h l Reconnect \<and> (\<forall>c. \<not> h l (UntilFails c)))"

lemma exec_returns:
  assumes "settles h"
  shows "\<exists>y. exec h as s = Some y"
proof -
  obtain n where n: "\<forall>l. n \<le> length l \<longrightarrow> h l Reconnect \<and> (\<forall>c. \<not> h l (UntilFails c))"
    using assms by (auto simp: settles_def)
  have "wf (measures [\<lambda>(as :: action list, s :: run_state). length as, \<lambda>(as, s). n - length (run_log s)])"
    by simp
  then have "\<exists>y. exec h (fst x) (snd x) = Some y" for x
  proof (induction x rule: wf_induct_rule)
    case (less x)
    obtain as s where x: "x = (as, s)" by fastforce
    show ?case
    proof (cases "exec_step h as s")
      case (Inl y)
      then show ?thesis using x by (simp add: exec.simps [of h as])
    next
      case (Inr x')
      obtain a t where as: "as = a # t" using Inr by (cases as) auto
      have "length (fst x') < length as \<or> fst x' = as \<and> n - length (run_log (snd x')) < n - length (run_log s)"
        using Inr n [rule_format, of "run_log s"] unfolding as
        by (cases a; cases "n \<le> length (run_log s)") (auto split: if_splits)
      then have "\<exists>y. exec h (fst x') (snd x') = Some y" using less.IH [of x'] x by (cases x') auto
      then show ?thesis using Inr x by (simp add: exec.simps [of h as])
    qed
  qed
  from this [of "(as, s)"] show ?thesis by simp
qed

lemma exec_completes:
  assumes "\<And>e. \<forall>a\<in>set as. treats a \<noteq> Stop e" "exec h as s = Some (r, s')" "\<forall>l a. treats a = Needed \<longrightarrow> h l a"
  shows "r = Inr () \<and> set as \<subseteq> fst ` set (run_log s')"
proof -
  let ?I = "\<lambda>as1 s1. set as1 \<subseteq> set as \<and> set as \<subseteq> set as1 \<union> fst ` set (run_log s1)"
  show ?thesis
  proof (rule exec_invariant [OF assms(2), where I = ?I])
    show "?I as2 s2" if "exec_step h as1 s1 = Inr (as2, s2)" "?I as1 s1" for as1 s1 as2 s2
      using that by (cases as1) (auto split: on_result.splits if_splits)
    show "r = Inr () \<and> set as \<subseteq> fst ` set (run_log s2)" if "exec_step h as1 s1 = Inl (r, s2)" "?I as1 s1" for as1 s1 r s2
      using that assms(1,3) by (cases as1) (auto split: on_result.splits if_splits)
  qed simp
qed

end
