(* ===== verification/Runner_Cli.thy ===== *)
theory Runner_Cli
  imports Runner_Base
begin

text \<open>
  The command line of an experiment: what \<^verbatim>\<open>cli_options\<close> of \<^verbatim>\<open>runner/src/fbmm_exp.rs\<close> declares to
  the command-line library, and how \<^verbatim>\<open>run\<close> turns a command line into the configuration of the
  experiment.  The library itself is not part of the repository.  It appears as the arguments it
  found, with what it guarantees of them, \<open>accepted\<close>: required arguments are there, values pass
  their checks, and the declared requirements and conflicts hold.
\<close>

section \<open>Declarations of arguments\<close>

datatype validator = IsUsize | IsF32

datatype arg_kind = Flag | OneValue "validator option" | ManyValues

record arg_spec =
  arg_name :: string
  arg_kind :: arg_kind
  arg_required :: bool
  arg_requires :: "string list"
  arg_conflicts :: "string list"

record group_spec =
  group_name :: string
  members :: "string list"
  group_required :: bool
  group_requires :: "string list"

definition arg :: "arg_kind \<Rightarrow> string \<Rightarrow> arg_spec" where
  "arg k n = \<lparr>arg_name = n, arg_kind = k, arg_required = False, arg_requires = [], arg_conflicts = []\<rparr>"

abbreviation flag :: "string \<Rightarrow> arg_spec" where "flag \<equiv> arg Flag"
abbreviation usize_arg :: "string \<Rightarrow> arg_spec" where "usize_arg \<equiv> arg (OneValue (Some IsUsize))"
abbreviation f32_arg :: "string \<Rightarrow> arg_spec" where "f32_arg \<equiv> arg (OneValue (Some IsF32))"
abbreviation text_arg :: "string \<Rightarrow> arg_spec" where "text_arg \<equiv> arg (OneValue None)"

definition is_required :: "arg_spec \<Rightarrow> arg_spec" where
  "is_required a = a\<lparr>arg_required := True\<rparr>"

definition needing :: "string list \<Rightarrow> arg_spec \<Rightarrow> arg_spec" where
  "needing xs a = a\<lparr>arg_requires := xs\<rparr>"

definition excluding :: "string list \<Rightarrow> arg_spec \<Rightarrow> arg_spec" where
  "excluding xs a = a\<lparr>arg_conflicts := xs\<rparr>"

text \<open>The arguments of the experiment itself.\<close>

definition exp_args :: "arg_spec list" where
  "exp_args =
    [is_required (text_arg ''HOSTNAME''),
     is_required (text_arg ''USERNAME''),
     flag ''PERF_STAT'',
     needing [''PERF_STAT''] (flag ''PERF_PERIODIC''),
     needing [''PERF_STAT''] (arg ManyValues ''PERF_COUNTER''),
     flag ''DISABLE_THP'',
     flag ''DISABLE_ASLR'',
     flag ''MM_FAULT_TRACKER'',
     flag ''MMAP_TRACKER'',
     flag ''FLAME_GRAPH'',
     flag ''SMAPS_PERIODIC'',
     needing [''TIEREDMMFS''] (flag ''TMMFS_STATS_PERIODIC''),
     needing [''TIEREDMMFS''] (flag ''TMMFS_ACTIVE_LIST_PERIODIC''),
     flag ''NUMACTL'',
     flag ''BADGER_TRAP'',
     flag ''LOCK_STAT'',
     excluding [''TPP'', ''HUGETLB''] (needing [''MMFS_TYPE''] (flag ''FBMM'')),
     needing [''FBMM''] (flag ''FBMM_CONTROL''),
     excluding [''FBMM'', ''HUGETLB''] (needing [''DRAM_SIZE''] (flag ''TPP'')),
     needing [''NODE_WEIGHT''] (flag ''HMSDK_BW''),
     flag ''HMSDK_TIERED'',
     flag ''EXT4'',
     usize_arg ''BASICMMFS'',
     needing [''DRAM_SIZE'', ''PMEM_SIZE''] (flag ''TIEREDMMFS''),
     flag ''CONTIGMMFS'',
     flag ''BWMMFS'',
     usize_arg ''DRAM_SIZE'',
     usize_arg ''DRAM_START'',
     needing [''TIEREDMMFS''] (usize_arg ''PMEM_SIZE''),
     needing [''TIEREDMMFS''] (usize_arg ''PMEM_START''),
     arg ManyValues ''NODE_WEIGHT'',
     usize_arg ''MIGRATE_TASK_INT'',
     usize_arg ''NUMA_SCAN_SIZE'',
     usize_arg ''NUMA_SCAN_DELAY'',
     usize_arg ''NUMA_SCAN_PERIOD_MIN'',
     excluding [''FBMM'', ''TPP''] (usize_arg ''HUGETLB''),
     usize_arg ''PTE_FAULT_SIZE'',
     excluding [''FBMM'', ''DISABLE_THP''] (flag ''THP_TEMPORAL_ZERO''),
     flag ''NO_FPM_FIX'',
     flag ''NO_PMEM_WRITE_ZEROES'',
     flag ''TRACK_PFN_INSERT'',
     flag ''MARK_INODE_DIRTY'',
     flag ''EXT4_METADATA'',
     flag ''NO_PREALLOC'']"

definition exp_groups :: "group_spec list" where
  "exp_groups =
    [\<lparr>group_name = ''HMSDK_TYPE'', members = [''HMSDK_BW'', ''HMSDK_TIERED''],
      group_required = False, group_requires = []\<rparr>,
     \<lparr>group_name = ''MMFS_TYPE'', members = [''EXT4'', ''BASICMMFS'', ''TIEREDMMFS'', ''CONTIGMMFS'', ''BWMMFS''],
      group_required = False, group_requires = [''FBMM'']\<rparr>]"

text \<open>The arguments of a workload.\<close>

definition workload_args :: "string \<Rightarrow> (arg_spec list \<times> group_spec list) option" where
  "workload_args name =
    (if name = ''alloctest'' then
       Some ([is_required (usize_arg ''SIZE''), usize_arg ''NUM_ALLOCS'', usize_arg ''THREADS'',
              flag ''POPULATE'', flag ''TOUCH''], [])
     else if name = ''canneal'' then
       Some ([flag ''SMALL'', flag ''MEDIUM'', flag ''LARGE'', flag ''NATIVE''],
             [\<lparr>group_name = ''CANNEAL_WORKLOAD'', members = [''SMALL'', ''MEDIUM'', ''LARGE'', ''NATIVE''],
               group_required = False, group_requires = []\<rparr>])
     else if name = ''spec17'' then Some ([is_required (text_arg ''WHICH''), usize_arg ''SIZE''], [])
     else if name = ''gups'' then
       Some ([needing [''HOT_EXP''] (flag ''MOVE_HOT''), usize_arg ''THREADS'', is_required (usize_arg ''EXP''),
              usize_arg ''HOT_EXP'', usize_arg ''NUM_UPDATES''], [])
     else if name = ''pagewalk_coherence'' then
       Some ([flag ''SPECULATION'', flag ''COHERENCE''],
             [\<lparr>group_name = ''MODE'', members = [''SPECULATION'', ''COHERENCE''],
               group_required = True, group_requires = []\<rparr>])
     else if name = ''memcached'' then
       Some ([is_required (usize_arg ''SIZE''), usize_arg ''OP_COUNT'', f32_arg ''READ_PROP'', f32_arg ''UPDATE_PROP''], [])
     else if name = ''postgres'' then Some ([usize_arg ''OP_COUNT''], [])
     else if name = ''graph500'' then Some ([is_required (usize_arg ''SIZE'')], [])
     else if name = ''stream'' then Some ([usize_arg ''THREADS''], [])
     else None)"

section \<open>What the library guarantees\<close>

text \<open>
  The arguments found, by name: a flag has no values.  \<open>pf\<close> is the conversion of text to a 32-bit
  floating-point number, which is represented by its bits.
\<close>

type_synonym matches = "string \<Rightarrow> string list option"
type_synonym f32 = "32 word"

definition is_present :: "matches \<Rightarrow> string \<Rightarrow> bool" where
  "is_present m x \<longleftrightarrow> m x \<noteq> None"

definition value_of :: "matches \<Rightarrow> string \<Rightarrow> string option" where
  "value_of m x = (case m x of Some (v # _) \<Rightarrow> Some v | _ \<Rightarrow> None)"

definition values_of :: "matches \<Rightarrow> string \<Rightarrow> string list" where
  "values_of m x = (case m x of Some vs \<Rightarrow> vs | None \<Rightarrow> [])"

definition found :: "group_spec list \<Rightarrow> matches \<Rightarrow> string \<Rightarrow> bool" where
  "found gs m x =
     (case find (\<lambda>g. group_name g = x) gs of
        Some g \<Rightarrow> list_ex (is_present m) (members g)
      | None \<Rightarrow> is_present m x)"

fun valid :: "(string \<Rightarrow> f32 option) \<Rightarrow> arg_kind \<Rightarrow> string list \<Rightarrow> bool" where
  "valid pf Flag vs = (vs = [])"
| "valid pf (OneValue None) vs = (length vs = 1)"
| "valid pf (OneValue (Some IsUsize)) vs = (length vs = 1 \<and> parse_usize (hd vs) \<noteq> None)"
| "valid pf (OneValue (Some IsF32)) vs = (length vs = 1 \<and> pf (hd vs) \<noteq> None)"
| "valid pf ManyValues vs = (vs \<noteq> [])"

definition arg_accepted :: "(string \<Rightarrow> f32 option) \<Rightarrow> group_spec list \<Rightarrow> matches \<Rightarrow> arg_spec \<Rightarrow> bool" where
  "arg_accepted pf gs m a =
     (case m (arg_name a) of
        None \<Rightarrow> \<not> arg_required a
      | Some vs \<Rightarrow> valid pf (arg_kind a) vs \<and> list_all (found gs m) (arg_requires a) \<and>
          list_all (\<lambda>x. \<not> found gs m x) (arg_conflicts a))"

definition group_accepted :: "group_spec list \<Rightarrow> matches \<Rightarrow> group_spec \<Rightarrow> bool" where
  "group_accepted gs m g =
     (let k = length (filter (is_present m) (members g))
      in k \<le> 1 \<and> (group_required g \<longrightarrow> k = 1) \<and> (0 < k \<longrightarrow> list_all (found gs m) (group_requires g)))"

definition accepted :: "(string \<Rightarrow> f32 option) \<Rightarrow> arg_spec list \<Rightarrow> group_spec list \<Rightarrow> matches \<Rightarrow> bool" where
  "accepted pf args gs m \<longleftrightarrow> list_all (arg_accepted pf gs m) args \<and> list_all (group_accepted gs m) gs"

section \<open>The configuration\<close>

datatype PagewalkCoherenceMode = Speculation | Coherence

datatype CannealWorkload = CannealSmall | CannealMedium | CannealLarge | CannealNative

datatype Workload =
    Spec2017Mcf
  | Spec2017Xalancbmk
  | Spec2017Xz (xz_size: nat)
  | Spec2017CactuBSSN
  | Canneal CannealWorkload
  | AllocTest (alloc_size: nat) (num_allocs: nat) (alloc_threads: nat) (populate: bool) (touch: bool)
  | Gups (gups_threads: nat) (gups_exp: nat) (hot_exp: "nat option") (move_hot: bool) (num_updates: nat)
  | PagewalkCoherence PagewalkCoherenceMode
  | Memcached (mem_size: nat) (op_count: nat) (read_prop: f32) (update_prop: f32)
  | Postgres (pg_op_count: nat)
  | Graph500 (graph_size: nat)
  | Stream (stream_threads: nat)

record MemRegion =
  mem_region_size :: nat
  mem_region_start :: nat

datatype MMFS = Ext4 | BasicMMFS (num_pages: nat) | TieredMMFS | ContigMMFS | BandwidthMMFS

record NodeWeight =
  nid :: nat
  weight :: nat

record Config =
  exp_name :: string
  workload :: Workload
  perf_stat :: bool
  perf_periodic :: bool
  perf_counters :: "string list"
  disable_thp :: bool
  disable_aslr :: bool
  mm_fault_tracker :: bool
  mmap_tracker :: bool
  flame_graph :: bool
  smaps_periodic :: bool
  tmmfs_stats_periodic :: bool
  tmmfs_active_list_periodic :: bool
  lock_stat :: bool
  fbmm :: "MMFS option"
  fbmm_control :: bool
  tpp :: bool
  hmsdk_bw :: bool
  hmsdk_tiered :: bool
  dram_region :: "MemRegion option"
  pmem_region :: "MemRegion option"
  node_weights :: "NodeWeight list"
  numactl :: bool
  use_badger_trap :: bool
  migrate_task_int :: "nat option"
  numa_scan_size :: "nat option"
  numa_scan_delay :: "nat option"
  numa_scan_period_min :: "nat option"
  hugetlb :: "nat option"
  pte_fault_size :: "nat option"
  thp_temporal_zero :: bool
  no_fpm_fix :: bool
  no_pmem_write_zeroes :: bool
  track_pfn_insert :: bool
  mark_inode_dirty :: bool
  ext4_metadata :: bool
  no_prealloc :: bool
  username :: string
  hostname :: string
  remote_research_settings :: "(string \<times> string) list"
  timestamp :: string

section \<open>From the command line to the configuration\<close>

text \<open>
  \<^verbatim>\<open>value_of(x).unwrap().parse().unwrap()\<close>, \<^verbatim>\<open>value_of(x).unwrap_or(d).parse().unwrap()\<close> and
  \<^verbatim>\<open>value_of(x).map(.. parse().unwrap())\<close>.
\<close>

definition usize_value :: "matches \<Rightarrow> string \<Rightarrow> nat option" where
  "usize_value m x = (case value_of m x of Some v \<Rightarrow> parse_usize v | None \<Rightarrow> None)"

definition usize_or :: "string \<Rightarrow> matches \<Rightarrow> string \<Rightarrow> nat option" where
  "usize_or d m x = parse_usize (case value_of m x of Some v \<Rightarrow> v | None \<Rightarrow> d)"

definition usize_option :: "matches \<Rightarrow> string \<Rightarrow> nat option option" where
  "usize_option m x = (case value_of m x of None \<Rightarrow> Some None | Some v \<Rightarrow> map_option Some (parse_usize v))"

definition f32_or :: "(string \<Rightarrow> f32 option) \<Rightarrow> string \<Rightarrow> matches \<Rightarrow> string \<Rightarrow> f32 option" where
  "f32_or pf d m x = pf (case value_of m x of Some v \<Rightarrow> v | None \<Rightarrow> d)"

definition workload_of :: "(string \<Rightarrow> f32 option) \<Rightarrow> (string \<times> matches) option \<Rightarrow> Workload option" where
  "workload_of pf subcommand =
     do {
       (name, m) \<leftarrow> subcommand;
       if name = ''alloctest'' then
         do {
           sz \<leftarrow> usize_value m ''SIZE'';
           allocs \<leftarrow> usize_or ''1'' m ''NUM_ALLOCS'';
           ths \<leftarrow> usize_or ''1'' m ''THREADS'';
           Some (AllocTest sz allocs ths (is_present m ''POPULATE'') (is_present m ''TOUCH''))
         }
       else if name = ''canneal'' then
         Some (Canneal (if is_present m ''SMALL'' then CannealSmall
                        else if is_present m ''MEDIUM'' then CannealMedium
                        else if is_present m ''LARGE'' then CannealLarge
                        else CannealNative))
       else if name = ''spec17'' then
         do {
           sz \<leftarrow> usize_or ''0'' m ''SIZE'';
           which \<leftarrow> value_of m ''WHICH'';
           if which = ''mcf'' then Some Spec2017Mcf
           else if which = ''xalancbmk'' then Some Spec2017Xalancbmk
           else if which = ''xz'' then Some (Spec2017Xz sz)
           else if which = ''cactubssn'' then Some Spec2017CactuBSSN
           else None
         }
       else if name = ''gups'' then
         do {
           ths \<leftarrow> usize_or ''1'' m ''THREADS'';
           e \<leftarrow> usize_value m ''EXP'';
           hot \<leftarrow> usize_option m ''HOT_EXP'';
           updates \<leftarrow> (case value_of m ''NUM_UPDATES'' of
                           Some s \<Rightarrow> parse_usize s
                         | None \<Rightarrow> map_option (\<lambda>n. n div 8) (usize_shl 1 e));
           Some (Gups ths e hot (is_present m ''MOVE_HOT'') updates)
         }
       else if name = ''pagewalk_coherence'' then
         Some (PagewalkCoherence (if is_present m ''SPECULATION'' then Speculation else Coherence))
       else if name = ''memcached'' then
         do {
           sz \<leftarrow> usize_value m ''SIZE'';
           ops \<leftarrow> usize_or ''1000'' m ''OP_COUNT'';
           rp \<leftarrow> f32_or pf ''0.5'' m ''READ_PROP'';
           up \<leftarrow> f32_or pf ''0.5'' m ''UPDATE_PROP'';
           Some (Memcached sz ops rp up)
         }
       else if name = ''postgres'' then
         do { ops \<leftarrow> usize_or ''1000'' m ''OP_COUNT''; Some (Postgres ops) }
       else if name = ''graph500'' then
         do { sz \<leftarrow> usize_value m ''SIZE''; Some (Graph500 sz) }
       else if name = ''stream'' then
         do { ths \<leftarrow> usize_or ''1'' m ''THREADS''; Some (Stream ths) }
       else None
     }"

definition fbmm_of :: "matches \<Rightarrow> MMFS option option" where
  "fbmm_of m =
     (if \<not> is_present m ''FBMM'' then Some None
      else if is_present m ''EXT4'' then Some (Some Ext4)
      else case value_of m ''BASICMMFS'' of
             Some s \<Rightarrow> map_option (\<lambda>n. Some (BasicMMFS n)) (parse_usize s)
           | None \<Rightarrow>
               if is_present m ''TIEREDMMFS'' then Some (Some TieredMMFS)
               else if is_present m ''CONTIGMMFS'' then Some (Some ContigMMFS)
               else if is_present m ''BWMMFS'' then Some (Some BandwidthMMFS)
               else None)"

definition dram_region_of :: "matches \<Rightarrow> MemRegion option option" where
  "dram_region_of m =
     (if \<not> is_present m ''DRAM_SIZE'' then Some None
      else do {
        sz \<leftarrow> usize_value m ''DRAM_SIZE'';
        start \<leftarrow> usize_or ''4'' m ''DRAM_START'';
        Some (Some \<lparr>mem_region_size = sz, mem_region_start = start\<rparr>)
      })"

text \<open>The default of the start is computed, and may panic, even when it is not used.\<close>

definition pmem_region_of :: "MemRegion option \<Rightarrow> matches \<Rightarrow> MemRegion option option" where
  "pmem_region_of dram m =
     (if \<not> is_present m ''PMEM_SIZE'' then Some None
      else do {
        sz \<leftarrow> usize_value m ''PMEM_SIZE'';
        d \<leftarrow> dram;
        behind \<leftarrow> usize_checked (mem_region_size d + mem_region_start d);
        start \<leftarrow> usize_or (decimal behind) m ''PMEM_START'';
        Some (Some \<lparr>mem_region_size = sz, mem_region_start = start\<rparr>)
      })"

definition node_weight_of :: "string \<Rightarrow> NodeWeight option" where
  "node_weight_of s =
     (case split_on (CHR '':'') s of
        a # b # _ \<Rightarrow> do { n \<leftarrow> parse_uint 32 a; w \<leftarrow> parse_uint 32 b; Some \<lparr>nid = n, weight = w\<rparr> }
      | _ \<Rightarrow> None)"

fun all_some :: "'a option list \<Rightarrow> 'a list option" where
  "all_some [] = Some []"
| "all_some (x # xs) = do { y \<leftarrow> x; ys \<leftarrow> all_some xs; Some (y # ys) }"

definition config_of ::
  "(string \<Rightarrow> f32 option) \<Rightarrow> (string \<times> string) list \<Rightarrow> string \<Rightarrow> matches \<Rightarrow> (string \<times> matches) option \<Rightarrow> Config option" where
  "config_of pf settings now m subcommand =
     do {
       user \<leftarrow> value_of m ''USERNAME'';
       host \<leftarrow> value_of m ''HOSTNAME'';
       wl \<leftarrow> workload_of pf subcommand;
       fs \<leftarrow> fbmm_of m;
       dram \<leftarrow> dram_region_of m;
       pmem \<leftarrow> pmem_region_of dram m;
       ws \<leftarrow> all_some (map node_weight_of (values_of m ''NODE_WEIGHT''));
       interval \<leftarrow> usize_option m ''MIGRATE_TASK_INT'';
       scan_size \<leftarrow> usize_option m ''NUMA_SCAN_SIZE'';
       delay \<leftarrow> usize_option m ''NUMA_SCAN_DELAY'';
       period \<leftarrow> usize_option m ''NUMA_SCAN_PERIOD_MIN'';
       huge \<leftarrow> usize_option m ''HUGETLB'';
       fault \<leftarrow> usize_option m ''PTE_FAULT_SIZE'';
       Some \<lparr>exp_name = ''fom_exp'', workload = wl,
             perf_stat = is_present m ''PERF_STAT'',
             perf_periodic = is_present m ''PERF_PERIODIC'',
             perf_counters = values_of m ''PERF_COUNTER'',
             disable_thp = is_present m ''DISABLE_THP'',
             disable_aslr = is_present m ''DISABLE_ASLR'',
             mm_fault_tracker = is_present m ''MM_FAULT_TRACKER'',
             mmap_tracker = is_present m ''MMAP_TRACKER'',
             flame_graph = is_present m ''FLAME_GRAPH'',
             smaps_periodic = is_present m ''SMAPS_PERIODIC'',
             tmmfs_stats_periodic = is_present m ''TMMFS_STATS_PERIODIC'',
             tmmfs_active_list_periodic = is_present m ''TMMFS_ACTIVE_LIST_PERIODIC'',
             lock_stat = is_present m ''LOCK_STAT'',
             fbmm = fs,
             fbmm_control = is_present m ''FBMM_CONTROL'',
             tpp = is_present m ''TPP'',
             hmsdk_bw = is_present m ''HMSDK_BW'',
             hmsdk_tiered = is_present m ''HMSDK_TIERED'',
             dram_region = dram, pmem_region = pmem, node_weights = ws,
             numactl = is_present m ''NUMACTL'',
             use_badger_trap = is_present m ''BADGER_TRAP'',
             migrate_task_int = interval, numa_scan_size = scan_size, numa_scan_delay = delay,
             numa_scan_period_min = period, hugetlb = huge, pte_fault_size = fault,
             thp_temporal_zero = is_present m ''THP_TEMPORAL_ZERO'',
             no_fpm_fix = is_present m ''NO_FPM_FIX'',
             no_pmem_write_zeroes = is_present m ''NO_PMEM_WRITE_ZEROES'',
             track_pfn_insert = is_present m ''TRACK_PFN_INSERT'',
             mark_inode_dirty = is_present m ''MARK_INODE_DIRTY'',
             ext4_metadata = is_present m ''EXT4_METADATA'',
             no_prealloc = is_present m ''NO_PREALLOC'',
             username = user, hostname = host,
             remote_research_settings = settings, timestamp = now\<rparr>
     }"

section \<open>Lemmas\<close>

lemmas spec_simps = arg_def is_required_def needing_def excluding_def

lemma arg_rule:
  assumes "accepted pf args gs m" "a \<in> set args" "is_present m (arg_name a)"
  shows "\<exists>vs. m (arg_name a) = Some vs \<and> valid pf (arg_kind a) vs"
    and "list_all (found gs m) (arg_requires a) \<and> list_all (\<lambda>x. \<not> found gs m x) (arg_conflicts a)"
  using assms by (auto simp: accepted_def list_all_iff [of "arg_accepted pf gs m"] arg_accepted_def is_present_def split: option.splits)

lemma required_rule:
  assumes "accepted pf args gs m" "a \<in> set args" "arg_required a"
  shows "is_present m (arg_name a)"
  using assms by (auto simp: accepted_def list_all_iff arg_accepted_def is_present_def split: option.splits)

lemma text_arg_value:
  assumes "accepted pf args gs m" "a \<in> set args" "arg_required a" "arg_kind a = OneValue k"
  shows "\<exists>v. value_of m (arg_name a) = Some v"
proof -
  have "is_present m (arg_name a)" using required_rule assms(1-3) .
  from arg_rule(1) [OF assms(1,2) this] assms(4) show ?thesis
    by (cases k) (auto simp: value_of_def length_Suc_conv split: validator.splits elim!: valid.elims)
qed

lemma usize_arg_value:
  assumes "accepted pf args gs m" "a \<in> set args" "arg_kind a = OneValue (Some IsUsize)"
  shows "value_of m (arg_name a) = Some v \<Longrightarrow> \<exists>n. parse_usize v = Some n"
    and "is_present m (arg_name a) \<Longrightarrow> \<exists>v n. value_of m (arg_name a) = Some v \<and> parse_usize v = Some n"
proof -
  show present: "is_present m (arg_name a) \<Longrightarrow> \<exists>v n. value_of m (arg_name a) = Some v \<and> parse_usize v = Some n"
    using arg_rule(1) [OF assms(1,2)] assms(3) by (auto simp: value_of_def length_Suc_conv)
  show "value_of m (arg_name a) = Some v \<Longrightarrow> \<exists>n. parse_usize v = Some n"
    using present by (auto simp: is_present_def value_of_def split: option.splits list.splits)
qed

lemma usize_option_accepted:
  assumes "accepted pf args gs m" "a \<in> set args" "arg_kind a = OneValue (Some IsUsize)"
  shows "\<exists>n. usize_option m (arg_name a) = Some n" "usize_option m (arg_name a) = Some None \<longleftrightarrow> \<not> is_present m (arg_name a)"
proof -
  note v = usize_arg_value [OF assms]
  show "\<exists>n. usize_option m (arg_name a) = Some n" using v(1) by (auto simp: usize_option_def split: option.splits)
  show "usize_option m (arg_name a) = Some None \<longleftrightarrow> \<not> is_present m (arg_name a)"
    using v by (auto simp: usize_option_def value_of_def is_present_def split: option.splits list.splits)
qed

lemma usize_or_accepted:
  assumes "accepted pf args gs m" "a \<in> set args" "arg_kind a = OneValue (Some IsUsize)" "parse_usize d = Some k"
  shows "\<exists>n. usize_or d m (arg_name a) = Some n"
  using usize_arg_value(1) [OF assms(1-3)] assms(4) by (auto simp: usize_or_def split: option.splits)

lemma found_exp [simp]:
  "found exp_groups m ''MMFS_TYPE'' \<longleftrightarrow>
     list_ex (is_present m) [''EXT4'', ''BASICMMFS'', ''TIEREDMMFS'', ''CONTIGMMFS'', ''BWMMFS'']"
  "x \<noteq> ''MMFS_TYPE'' \<Longrightarrow> x \<noteq> ''HMSDK_TYPE'' \<Longrightarrow> found exp_groups m x \<longleftrightarrow> is_present m x"
  by (auto simp: found_def exp_groups_def)

lemma exp_rules:
  assumes acc: "accepted pf exp_args exp_groups m"
  shows "is_present m ''PERF_PERIODIC'' \<Longrightarrow> is_present m ''PERF_STAT''"
    "is_present m ''PERF_COUNTER'' \<Longrightarrow> is_present m ''PERF_STAT''"
    "is_present m ''TMMFS_STATS_PERIODIC'' \<Longrightarrow> is_present m ''TIEREDMMFS''"
    "is_present m ''TMMFS_ACTIVE_LIST_PERIODIC'' \<Longrightarrow> is_present m ''TIEREDMMFS''"
    "is_present m ''FBMM'' \<Longrightarrow> found exp_groups m ''MMFS_TYPE'' \<and> \<not> is_present m ''TPP'' \<and> \<not> is_present m ''HUGETLB''"
    "is_present m ''FBMM_CONTROL'' \<Longrightarrow> is_present m ''FBMM''"
    "is_present m ''TPP'' \<Longrightarrow> is_present m ''DRAM_SIZE'' \<and> \<not> is_present m ''FBMM'' \<and> \<not> is_present m ''HUGETLB''"
    "is_present m ''HMSDK_BW'' \<Longrightarrow> is_present m ''NODE_WEIGHT''"
    "is_present m ''TIEREDMMFS'' \<Longrightarrow> is_present m ''DRAM_SIZE'' \<and> is_present m ''PMEM_SIZE''"
    "is_present m ''PMEM_SIZE'' \<Longrightarrow> is_present m ''TIEREDMMFS''"
    "is_present m ''THP_TEMPORAL_ZERO'' \<Longrightarrow> \<not> is_present m ''FBMM'' \<and> \<not> is_present m ''DISABLE_THP''"
proof -
  show "is_present m ''PERF_PERIODIC'' \<Longrightarrow> is_present m ''PERF_STAT''"
    using arg_rule(2) [OF acc, of "needing [''PERF_STAT''] (flag ''PERF_PERIODIC'')"] by (simp add: exp_args_def spec_simps)
  show "is_present m ''PERF_COUNTER'' \<Longrightarrow> is_present m ''PERF_STAT''"
    using arg_rule(2) [OF acc, of "needing [''PERF_STAT''] (arg ManyValues ''PERF_COUNTER'')"] by (simp add: exp_args_def spec_simps)
  show "is_present m ''TMMFS_STATS_PERIODIC'' \<Longrightarrow> is_present m ''TIEREDMMFS''"
    using arg_rule(2) [OF acc, of "needing [''TIEREDMMFS''] (flag ''TMMFS_STATS_PERIODIC'')"] by (simp add: exp_args_def spec_simps)
  show "is_present m ''TMMFS_ACTIVE_LIST_PERIODIC'' \<Longrightarrow> is_present m ''TIEREDMMFS''"
    using arg_rule(2) [OF acc, of "needing [''TIEREDMMFS''] (flag ''TMMFS_ACTIVE_LIST_PERIODIC'')"] by (simp add: exp_args_def spec_simps)
  show "is_present m ''FBMM'' \<Longrightarrow> found exp_groups m ''MMFS_TYPE'' \<and> \<not> is_present m ''TPP'' \<and> \<not> is_present m ''HUGETLB''"
    using arg_rule(2) [OF acc, of "excluding [''TPP'', ''HUGETLB''] (needing [''MMFS_TYPE''] (flag ''FBMM''))"] by (simp add: exp_args_def spec_simps)
  show "is_present m ''FBMM_CONTROL'' \<Longrightarrow> is_present m ''FBMM''"
    using arg_rule(2) [OF acc, of "needing [''FBMM''] (flag ''FBMM_CONTROL'')"] by (simp add: exp_args_def spec_simps)
  show "is_present m ''TPP'' \<Longrightarrow> is_present m ''DRAM_SIZE'' \<and> \<not> is_present m ''FBMM'' \<and> \<not> is_present m ''HUGETLB''"
    using arg_rule(2) [OF acc, of "excluding [''FBMM'', ''HUGETLB''] (needing [''DRAM_SIZE''] (flag ''TPP''))"] by (simp add: exp_args_def spec_simps)
  show "is_present m ''HMSDK_BW'' \<Longrightarrow> is_present m ''NODE_WEIGHT''"
    using arg_rule(2) [OF acc, of "needing [''NODE_WEIGHT''] (flag ''HMSDK_BW'')"] by (simp add: exp_args_def spec_simps)
  show "is_present m ''TIEREDMMFS'' \<Longrightarrow> is_present m ''DRAM_SIZE'' \<and> is_present m ''PMEM_SIZE''"
    using arg_rule(2) [OF acc, of "needing [''DRAM_SIZE'', ''PMEM_SIZE''] (flag ''TIEREDMMFS'')"] by (simp add: exp_args_def spec_simps)
  show "is_present m ''PMEM_SIZE'' \<Longrightarrow> is_present m ''TIEREDMMFS''"
    using arg_rule(2) [OF acc, of "needing [''TIEREDMMFS''] (usize_arg ''PMEM_SIZE'')"] by (simp add: exp_args_def spec_simps)
  show "is_present m ''THP_TEMPORAL_ZERO'' \<Longrightarrow> \<not> is_present m ''FBMM'' \<and> \<not> is_present m ''DISABLE_THP''"
    using arg_rule(2) [OF acc, of "excluding [''FBMM'', ''DISABLE_THP''] (flag ''THP_TEMPORAL_ZERO'')"] by (simp add: exp_args_def spec_simps)
qed

lemma exp_group_rules:
  assumes acc: "accepted pf exp_args exp_groups m"
  shows "\<not> (is_present m ''HMSDK_BW'' \<and> is_present m ''HMSDK_TIERED'')"
    "is_present m ''TIEREDMMFS'' \<Longrightarrow> is_present m ''FBMM'' \<and> \<not> is_present m ''EXT4'' \<and> \<not> is_present m ''BASICMMFS''"
  using acc [unfolded accepted_def, THEN conjunct2]
  by (auto simp: exp_groups_def group_accepted_def found_def Let_def split: if_splits)

lemma usize_required:
  assumes "accepted pf args gs m" "is_required (usize_arg x) \<in> set args"
  shows "\<exists>n. usize_value m x = Some n"
  using required_rule [OF assms] usize_arg_value(2) [OF assms] by (auto simp: usize_value_def spec_simps)

lemma usize_default:
  assumes "accepted pf args gs m" "usize_arg x \<in> set args" "parse_usize d \<noteq> None"
  shows "\<exists>n. usize_or d m x = Some n"
  using usize_or_accepted [OF assms(1,2)] assms(3) by (auto simp: spec_simps)

lemma usize_optional:
  assumes "accepted pf args gs m" "usize_arg x \<in> set args"
  shows "\<exists>n. usize_option m x = Some n" "\<exists>v n. value_of m x = Some v \<and> parse_usize v = Some n \<or> value_of m x = None"
  using usize_option_accepted(1) [OF assms] usize_arg_value(1) [OF assms]
  by (auto simp: spec_simps)

lemma f32_default:
  assumes "accepted pf args gs m" "f32_arg x \<in> set args" "pf d \<noteq> None"
  shows "\<exists>n. f32_or pf d m x = Some n"
  using arg_rule(1) [OF assms(1,2)] assms(3)
  by (auto simp: spec_simps f32_or_def value_of_def is_present_def length_Suc_conv split: option.splits list.splits)

lemma parse_defaults [simp]: "parse_usize ''1'' = Some 1" "parse_usize ''0'' = Some 0"
  "parse_usize ''1000'' = Some 1000" "parse_usize ''4'' = Some 4"
  by (simp_all add: parse_uint_def is_digit_def cnum_eval)

text \<open>What the library does not check of a workload's arguments and \<^verbatim>\<open>run\<close> relies on.\<close>

definition workload_sane :: "(string \<Rightarrow> f32 option) \<Rightarrow> string \<Rightarrow> matches \<Rightarrow> bool" where
  "workload_sane pf name m \<longleftrightarrow>
     pf ''0.5'' \<noteq> None \<and>
     (name = ''spec17'' \<longrightarrow> value_of m ''WHICH'' \<in> Some ` {''mcf'', ''xalancbmk'', ''xz'', ''cactubssn''}) \<and>
     (name = ''gups'' \<longrightarrow> is_present m ''NUM_UPDATES'' \<or> usize_or [] m ''EXP'' \<in> Some ` {..<64})"

lemma workload_accepted:
  assumes "workload_args name = Some (args, gs)" "accepted pf args gs m" "workload_sane pf name m"
  shows "\<exists>wl. workload_of pf (Some (name, m)) = Some wl"
proof -
  note facts = usize_required [OF assms(2)] usize_default [OF assms(2)] usize_optional [OF assms(2)]
    f32_default [OF assms(2)] text_arg_value [OF assms(2)]
  consider "name = ''alloctest''" | "name = ''canneal''" | "name = ''spec17''" | "name = ''gups''" |
    "name = ''pagewalk_coherence''" | "name = ''memcached''" | "name = ''postgres''" | "name = ''graph500''" | "name = ''stream''"
    using assms(1) by (auto simp: workload_args_def split: if_splits)
  then show ?thesis
  proof cases
    case 1
    then have "args = [is_required (usize_arg ''SIZE''), usize_arg ''NUM_ALLOCS'', usize_arg ''THREADS'', flag ''POPULATE'', flag ''TOUCH'']"
      using assms(1) by (simp add: workload_args_def)
    then show ?thesis using 1 facts(1) [of "''SIZE''"] facts(2) [of "''NUM_ALLOCS''" "''1''"] facts(2) [of "''THREADS''" "''1''"]
      by (auto simp: workload_of_def)
  next
    case 3
    then have "args = [is_required (text_arg ''WHICH''), usize_arg ''SIZE'']" using assms(1) by (simp add: workload_args_def)
    then show ?thesis using 3 assms(3) facts(2) [of "''SIZE''" "''0''"] by (auto simp: workload_of_def workload_sane_def)
  next
    case 4
    then have args: "args = [needing [''HOT_EXP''] (flag ''MOVE_HOT''), usize_arg ''THREADS'', is_required (usize_arg ''EXP''),
        usize_arg ''HOT_EXP'', usize_arg ''NUM_UPDATES'']" using assms(1) by (simp add: workload_args_def)
    obtain e where e: "usize_value m ''EXP'' = Some e" using facts(1) [of "''EXP''"] args by auto
    then have "usize_or [] m ''EXP'' = Some e" by (auto simp: usize_or_def usize_value_def split: option.splits)
    then have "value_of m ''NUM_UPDATES'' = None \<Longrightarrow> e < 64"
      using assms(3) 4 usize_arg_value(2) [OF assms(2), of "usize_arg ''NUM_UPDATES''"] args
      by (auto simp: workload_sane_def spec_simps)
    then show ?thesis using 4 e args facts(2) [of "''THREADS''" "''1''"] facts(3) [of "''HOT_EXP''"] facts(4) [of "''NUM_UPDATES''"]
      by (auto simp: workload_of_def usize_shl_def split: option.splits)
  next
    case 6
    then have "args = [is_required (usize_arg ''SIZE''), usize_arg ''OP_COUNT'', f32_arg ''READ_PROP'', f32_arg ''UPDATE_PROP'']"
      using assms(1) by (simp add: workload_args_def)
    then show ?thesis
      using 6 assms(3) facts(1) [of "''SIZE''"] facts(2) [of "''OP_COUNT''" "''1000''"] facts(5) [of "''READ_PROP''" "''0.5''"]
        facts(5) [of "''UPDATE_PROP''" "''0.5''"] by (auto simp: workload_of_def workload_sane_def)
  qed (use assms(1) facts(1) [of "''SIZE''"] facts(2) [of "''OP_COUNT''" "''1000''"] facts(2) [of "''THREADS''" "''1''"] in
    \<open>auto simp: workload_of_def workload_args_def\<close>)
qed

section \<open>Configurations of accepted command lines\<close>

text \<open>The rest of what \<^verbatim>\<open>run\<close> relies on without a check: the node weights, and a sum below \<open>2 ^ 64\<close>.\<close>

definition exp_sane :: "matches \<Rightarrow> bool" where
  "exp_sane m \<longleftrightarrow>
     list_all (\<lambda>s. node_weight_of s \<noteq> None) (values_of m ''NODE_WEIGHT'') \<and>
     (case dram_region_of m of Some (Some d) \<Rightarrow> mem_region_size d + mem_region_start d < 2 ^ 64 | _ \<Rightarrow> True)"

text \<open>What the rest of the runner may assume of a configuration.\<close>

definition config_ok :: "Config \<Rightarrow> bool" where
  "config_ok cfg \<longleftrightarrow>
     (tpp cfg \<longrightarrow> dram_region cfg \<noteq> None \<and> fbmm cfg = None \<and> hugetlb cfg = None) \<and>
     (hugetlb cfg \<noteq> None \<longrightarrow> fbmm cfg = None) \<and>
     (fbmm_control cfg \<longrightarrow> fbmm cfg \<noteq> None) \<and>
     (fbmm cfg = Some TieredMMFS \<longleftrightarrow> pmem_region cfg \<noteq> None) \<and>
     (pmem_region cfg \<noteq> None \<longrightarrow> dram_region cfg \<noteq> None) \<and>
     (hmsdk_bw cfg \<longrightarrow> node_weights cfg \<noteq> []) \<and> \<not> (hmsdk_bw cfg \<and> hmsdk_tiered cfg) \<and>
     (thp_temporal_zero cfg \<longrightarrow> fbmm cfg = None \<and> \<not> disable_thp cfg) \<and>
     (perf_periodic cfg \<or> perf_counters cfg \<noteq> [] \<longrightarrow> perf_stat cfg) \<and>
     (tmmfs_stats_periodic cfg \<or> tmmfs_active_list_periodic cfg \<longrightarrow> fbmm cfg = Some TieredMMFS)"

definition regions_adjacent :: "Config \<Rightarrow> bool" where
  "regions_adjacent cfg =
     (case (dram_region cfg, pmem_region cfg) of
        (Some d, Some p) \<Rightarrow> mem_region_start p = mem_region_start d + mem_region_size d
      | _ \<Rightarrow> True)"

lemma fbmm_of_accepted:
  assumes acc: "accepted pf exp_args exp_groups m"
  shows "\<exists>fs. fbmm_of m = Some fs \<and> (fs = None \<longleftrightarrow> \<not> is_present m ''FBMM'') \<and> (fs = Some TieredMMFS \<longleftrightarrow> is_present m ''TIEREDMMFS'')"
proof -
  have basic: "is_present m ''BASICMMFS'' \<Longrightarrow> \<exists>v n. value_of m ''BASICMMFS'' = Some v \<and> parse_usize v = Some n"
    "\<not> is_present m ''BASICMMFS'' \<Longrightarrow> value_of m ''BASICMMFS'' = None"
    using usize_arg_value(2) [OF acc, of "usize_arg ''BASICMMFS''"]
    by (simp_all add: exp_args_def spec_simps) (simp add: is_present_def value_of_def)
  show ?thesis
    using basic exp_rules(5) [OF acc] exp_group_rules(2) [OF acc]
    by (cases "is_present m ''FBMM''"; cases "is_present m ''BASICMMFS''"; cases "is_present m ''EXT4''") (auto simp: fbmm_of_def)
qed

lemma dram_region_of_accepted:
  assumes acc: "accepted pf exp_args exp_groups m"
  shows "\<exists>d. dram_region_of m = Some d \<and> (d = None \<longleftrightarrow> \<not> is_present m ''DRAM_SIZE'')"
proof (cases "is_present m ''DRAM_SIZE''")
  case True
  then obtain n where "usize_value m ''DRAM_SIZE'' = Some n"
    using usize_arg_value(2) [OF acc, of "usize_arg ''DRAM_SIZE''"] by (auto simp: exp_args_def spec_simps usize_value_def)
  moreover obtain k where "usize_or ''4'' m ''DRAM_START'' = Some k"
    using usize_default [OF acc, of "''DRAM_START''" "''4''"] by (auto simp: exp_args_def spec_simps)
  ultimately show ?thesis using True by (simp add: dram_region_of_def)
qed (simp add: dram_region_of_def)

lemma pmem_region_of_accepted:
  assumes acc: "accepted pf exp_args exp_groups m" and d: "dram_region_of m = Some d"
    and small: "\<And>r. d = Some r \<Longrightarrow> mem_region_size r + mem_region_start r < 2 ^ 64"
  shows "\<exists>p. pmem_region_of d m = Some p \<and> (p = None \<longleftrightarrow> \<not> is_present m ''PMEM_SIZE'') \<and>
    (\<forall>r q. d = Some r \<longrightarrow> p = Some q \<longrightarrow> \<not> is_present m ''PMEM_START'' \<longrightarrow> mem_region_start q = mem_region_start r + mem_region_size r)"
proof (cases "is_present m ''PMEM_SIZE''")
  case True
  then have "is_present m ''DRAM_SIZE''" using exp_rules(9,10) [OF acc] by blast
  then obtain r where r: "d = Some r" using dram_region_of_accepted [OF acc] d by auto
  obtain n where n: "usize_value m ''PMEM_SIZE'' = Some n"
    using True usize_arg_value(2) [OF acc, of "needing [''TIEREDMMFS''] (usize_arg ''PMEM_SIZE'')"]
    by (auto simp: exp_args_def spec_simps usize_value_def)
  let ?b = "mem_region_size r + mem_region_start r"
  have b: "usize_checked ?b = Some ?b" "parse_usize (decimal ?b) = Some ?b"
    using small [OF r] parse_uint_decimal [of ?b 64] by (simp_all add: usize_checked_def)
  obtain k where k: "usize_or (decimal ?b) m ''PMEM_START'' = Some k"
    using usize_or_accepted [OF acc, of "needing [''TIEREDMMFS''] (usize_arg ''PMEM_START'')", OF _ _ b(2)]
    by (auto simp: exp_args_def spec_simps)
  have "\<not> is_present m ''PMEM_START'' \<Longrightarrow> k = ?b" using k b(2) by (simp add: usize_or_def value_of_def is_present_def)
  then show ?thesis using True r n b k by (auto simp: pmem_region_of_def)
qed (simp add: pmem_region_of_def)

lemma all_some_accepted: "list_all (\<lambda>s. f s \<noteq> None) xs \<Longrightarrow> \<exists>ys. all_some (map f xs) = Some ys \<and> length ys = length xs"
  by (induction xs) auto

lemma values_present: "values_of m x \<noteq> [] \<Longrightarrow> is_present m x"
  by (auto simp: values_of_def is_present_def split: option.splits)

lemma config_fields:
  assumes "config_of pf settings now m sub = Some cfg"
  shows "workload_of pf sub = Some (workload cfg)" "fbmm_of m = Some (fbmm cfg)" "dram_region_of m = Some (dram_region cfg)"
    "pmem_region_of (dram_region cfg) m = Some (pmem_region cfg)"
    "all_some (map node_weight_of (values_of m ''NODE_WEIGHT'')) = Some (node_weights cfg)" "usize_option m ''HUGETLB'' = Some (hugetlb cfg)"
    "tpp cfg = is_present m ''TPP''" "fbmm_control cfg = is_present m ''FBMM_CONTROL''" "hmsdk_bw cfg = is_present m ''HMSDK_BW''"
    "hmsdk_tiered cfg = is_present m ''HMSDK_TIERED''" "thp_temporal_zero cfg = is_present m ''THP_TEMPORAL_ZERO''"
    "disable_thp cfg = is_present m ''DISABLE_THP''" "perf_periodic cfg = is_present m ''PERF_PERIODIC''"
    "perf_counters cfg = values_of m ''PERF_COUNTER''" "perf_stat cfg = is_present m ''PERF_STAT''"
    "tmmfs_stats_periodic cfg = is_present m ''TMMFS_STATS_PERIODIC''"
    "tmmfs_active_list_periodic cfg = is_present m ''TMMFS_ACTIVE_LIST_PERIODIC''"
  using assms by (auto simp: config_of_def bind_eq_Some_conv)

lemma config_total:
  assumes "value_of m ''USERNAME'' = Some u" "value_of m ''HOSTNAME'' = Some h" "workload_of pf sub = Some wl" "fbmm_of m = Some fs"
    "dram_region_of m = Some d" "pmem_region_of d m = Some p" "all_some (map node_weight_of (values_of m ''NODE_WEIGHT'')) = Some ws"
    "usize_option m ''MIGRATE_TASK_INT'' = Some n1" "usize_option m ''NUMA_SCAN_SIZE'' = Some n2" "usize_option m ''NUMA_SCAN_DELAY'' = Some n3"
    "usize_option m ''NUMA_SCAN_PERIOD_MIN'' = Some n4" "usize_option m ''HUGETLB'' = Some n5" "usize_option m ''PTE_FAULT_SIZE'' = Some n6"
  shows "\<exists>cfg. config_of pf settings now m sub = Some cfg"
  by (simp add: config_of_def assms)

lemma exp_options_accepted:
  assumes acc: "accepted pf exp_args exp_groups m"
  shows "\<exists>n. usize_option m ''MIGRATE_TASK_INT'' = Some n" "\<exists>n. usize_option m ''NUMA_SCAN_SIZE'' = Some n"
    "\<exists>n. usize_option m ''NUMA_SCAN_DELAY'' = Some n" "\<exists>n. usize_option m ''NUMA_SCAN_PERIOD_MIN'' = Some n"
    "\<exists>n. usize_option m ''PTE_FAULT_SIZE'' = Some n"
    "\<exists>n. usize_option m ''HUGETLB'' = Some n \<and> (n = None \<longleftrightarrow> \<not> is_present m ''HUGETLB'')"
    "\<exists>v. value_of m ''USERNAME'' = Some v" "\<exists>v. value_of m ''HOSTNAME'' = Some v"
    "is_present m ''NODE_WEIGHT'' \<Longrightarrow> values_of m ''NODE_WEIGHT'' \<noteq> []"
proof -
  show "\<exists>n. usize_option m ''MIGRATE_TASK_INT'' = Some n" "\<exists>n. usize_option m ''NUMA_SCAN_SIZE'' = Some n"
    "\<exists>n. usize_option m ''NUMA_SCAN_DELAY'' = Some n" "\<exists>n. usize_option m ''NUMA_SCAN_PERIOD_MIN'' = Some n"
    "\<exists>n. usize_option m ''PTE_FAULT_SIZE'' = Some n"
    by (rule usize_optional(1) [OF acc], simp add: exp_args_def)+
  show "\<exists>n. usize_option m ''HUGETLB'' = Some n \<and> (n = None \<longleftrightarrow> \<not> is_present m ''HUGETLB'')"
    using usize_option_accepted [OF acc, of "excluding [''FBMM'', ''TPP''] (usize_arg ''HUGETLB'')"]
    by (simp add: exp_args_def spec_simps) auto
  show "\<exists>v. value_of m ''USERNAME'' = Some v" "\<exists>v. value_of m ''HOSTNAME'' = Some v"
    using text_arg_value [OF acc, of "is_required (text_arg ''USERNAME'')"]
      text_arg_value [OF acc, of "is_required (text_arg ''HOSTNAME'')"] by (simp_all add: exp_args_def spec_simps)
  show "is_present m ''NODE_WEIGHT'' \<Longrightarrow> values_of m ''NODE_WEIGHT'' \<noteq> []"
    using arg_rule(1) [OF acc, of "arg ManyValues ''NODE_WEIGHT''"] by (auto simp: exp_args_def spec_simps values_of_def)
qed

lemma config_shape:
  assumes acc: "accepted pf exp_args exp_groups m" and cfg: "config_of pf settings now m sub = Some cfg"
  shows "fbmm cfg = None \<longleftrightarrow> \<not> is_present m ''FBMM''" "fbmm cfg = Some TieredMMFS \<longleftrightarrow> is_present m ''TIEREDMMFS''"
    "dram_region cfg = None \<longleftrightarrow> \<not> is_present m ''DRAM_SIZE''" "hugetlb cfg = None \<longleftrightarrow> \<not> is_present m ''HUGETLB''"
    "is_present m ''NODE_WEIGHT'' \<Longrightarrow> node_weights cfg \<noteq> []"
proof -
  note f = config_fields [OF cfg]
  show "fbmm cfg = None \<longleftrightarrow> \<not> is_present m ''FBMM''" "fbmm cfg = Some TieredMMFS \<longleftrightarrow> is_present m ''TIEREDMMFS''"
    using fbmm_of_accepted [OF acc] unfolding f(2) by simp_all
  show "dram_region cfg = None \<longleftrightarrow> \<not> is_present m ''DRAM_SIZE''"
    using dram_region_of_accepted [OF acc] unfolding f(3) by simp
  show "hugetlb cfg = None \<longleftrightarrow> \<not> is_present m ''HUGETLB''"
    using exp_options_accepted(6) [OF acc] unfolding f(6) by simp
  show "node_weights cfg \<noteq> []" if "is_present m ''NODE_WEIGHT''"
    using exp_options_accepted(9) [OF acc that] f(5)
    by (cases "values_of m ''NODE_WEIGHT''") (auto simp: bind_eq_Some_conv)
qed

lemma pmem_present: "pmem_region_of d m = Some p \<Longrightarrow> p = None \<longleftrightarrow> \<not> is_present m ''PMEM_SIZE''"
  by (auto simp: pmem_region_of_def bind_eq_Some_conv split: if_splits)

lemma config_ok_accepted:
  assumes acc: "accepted pf exp_args exp_groups m" and cfg: "config_of pf settings now m sub = Some cfg"
  shows "config_ok cfg"
proof -
  note f = config_fields [OF cfg] and c = config_shape [OF acc cfg] and r = exp_rules [OF acc] and g = exp_group_rules [OF acc]
  have p: "pmem_region cfg = None \<longleftrightarrow> \<not> is_present m ''PMEM_SIZE''" by (rule pmem_present [OF f(4)])
  have tiered: "fbmm cfg = Some TieredMMFS \<longleftrightarrow> pmem_region cfg \<noteq> None" "pmem_region cfg \<noteq> None \<Longrightarrow> dram_region cfg \<noteq> None"
    using c(2,3) p r(9,10) by metis+
  have huge: "tpp cfg \<Longrightarrow> dram_region cfg \<noteq> None \<and> fbmm cfg = None \<and> hugetlb cfg = None" "hugetlb cfg \<noteq> None \<Longrightarrow> fbmm cfg = None"
    using c(1,3,4) r(7) r(5) [THEN conjunct2] f(7) by metis+
  have thp: "thp_temporal_zero cfg \<Longrightarrow> fbmm cfg = None \<and> \<not> disable_thp cfg" using c(1) r(11) f(11,12) by simp
  have perf: "perf_periodic cfg \<or> perf_counters cfg \<noteq> [] \<Longrightarrow> perf_stat cfg"
    using r(1,2) f(13-15) values_present [of m "''PERF_COUNTER''"] by auto
  have stats: "tmmfs_stats_periodic cfg \<or> tmmfs_active_list_periodic cfg \<Longrightarrow> fbmm cfg = Some TieredMMFS"
    using r(3,4) f(16,17) c(2) by metis
  have rest: "fbmm_control cfg \<Longrightarrow> fbmm cfg \<noteq> None" "hmsdk_bw cfg \<Longrightarrow> node_weights cfg \<noteq> []" "\<not> (hmsdk_bw cfg \<and> hmsdk_tiered cfg)"
    using r(6,8) g(1) f(8-10) c(1,5) by metis+
  show ?thesis unfolding config_ok_def by (intro conjI) (use tiered huge thp perf stats rest in simp_all)
qed

lemma config_total_accepted:
  assumes acc: "accepted pf exp_args exp_groups m" and "exp_sane m" "workload_of pf sub = Some wl"
  shows "\<exists>cfg. config_of pf settings now m sub = Some cfg"
proof -
  obtain fs where fs: "fbmm_of m = Some fs" using fbmm_of_accepted [OF acc] by blast
  obtain d where d: "dram_region_of m = Some d" using dram_region_of_accepted [OF acc] by blast
  have small: "\<And>r. d = Some r \<Longrightarrow> mem_region_size r + mem_region_start r < 2 ^ 64" using assms(2) d by (simp add: exp_sane_def)
  obtain p where p: "pmem_region_of d m = Some p" using pmem_region_of_accepted [OF acc d small] by blast
  obtain ws where ws: "all_some (map node_weight_of (values_of m ''NODE_WEIGHT'')) = Some ws"
    using all_some_accepted [of node_weight_of "values_of m ''NODE_WEIGHT''"] assms(2) unfolding exp_sane_def by blast
  note opts = exp_options_accepted [OF acc]
  obtain n1 n2 n3 n4 n5 n6 u h where
    "usize_option m ''MIGRATE_TASK_INT'' = Some n1" "usize_option m ''NUMA_SCAN_SIZE'' = Some n2" "usize_option m ''NUMA_SCAN_DELAY'' = Some n3"
    "usize_option m ''NUMA_SCAN_PERIOD_MIN'' = Some n4" "usize_option m ''HUGETLB'' = Some n5" "usize_option m ''PTE_FAULT_SIZE'' = Some n6"
    "value_of m ''USERNAME'' = Some u" "value_of m ''HOSTNAME'' = Some h"
    using opts(1-8) by blast
  with config_total assms(3) fs d p ws show ?thesis by blast
qed

text \<open>
  C9: The declarations of the command line make \<^verbatim>\<open>run\<close> safe.  For every command line that the
  library accepts, and whose node weights, workload names and sizes are as documented, \<^verbatim>\<open>run\<close>
  does not panic (no \<^verbatim>\<open>unwrap\<close> fails), and the configuration is consistent: TPP, huge pages and FBMM
  exclude each other, the tiered file system has both of its memory regions, the weighted
  interleaving has weights, and persistent memory without a start lies directly behind DRAM.
\<close>

theorem accepted_config:
  assumes "accepted pf exp_args exp_groups m" "exp_sane m"
    and "workload_args name = Some (args, gs)" "accepted pf args gs wm" "workload_sane pf name wm"
  shows "\<exists>cfg. config_of pf settings now m (Some (name, wm)) = Some cfg \<and> config_ok cfg \<and>
    (\<not> is_present m ''PMEM_START'' \<longrightarrow> regions_adjacent cfg)"
proof -
  obtain wl where "workload_of pf (Some (name, wm)) = Some wl" using workload_accepted [OF assms(3-5)] by blast
  then obtain cfg where cfg: "config_of pf settings now m (Some (name, wm)) = Some cfg"
    using config_total_accepted [OF assms(1,2)] by blast
  have "regions_adjacent cfg" if "\<not> is_present m ''PMEM_START''"
    using pmem_region_of_accepted [OF assms(1) config_fields(3) [OF cfg]] assms(2) config_fields(3,4) [OF cfg] that
    by (auto simp: regions_adjacent_def exp_sane_def split: option.splits)
  then show ?thesis using cfg config_ok_accepted [OF assms(1) cfg] by blast
qed

text \<open>An experiment with GUPS on the tiered file system.\<close>

definition demo_f32 :: "string \<Rightarrow> f32 option" where
  "demo_f32 s = (if s = ''0.5'' then Some 0x3f000000 else None)"

definition demo_matches :: matches where
  "demo_matches = map_of
     [(''HOSTNAME'', [''node0:22'']), (''USERNAME'', [''user'']), (''FBMM'', []), (''TIEREDMMFS'', []),
      (''DRAM_SIZE'', [''8'']), (''PMEM_SIZE'', [''16''])]"

definition demo_gups :: matches where
  "demo_gups = map_of [(''EXP'', [''30'']), (''THREADS'', [''4''])]"

lemmas cli_eval = accepted_def arg_accepted_def group_accepted_def found_def spec_simps is_present_def value_of_def values_of_def
  usize_or_def usize_value_def parse_uint_def is_digit_def cnum_eval

lemma demo_accepted:
  "accepted demo_f32 exp_args exp_groups demo_matches" "exp_sane demo_matches"
  "\<exists>args gs. workload_args ''gups'' = Some (args, gs) \<and> accepted demo_f32 args gs demo_gups"
  "workload_sane demo_f32 ''gups'' demo_gups"
proof -
  show "accepted demo_f32 exp_args exp_groups demo_matches"
    by (simp add: exp_args_def exp_groups_def demo_matches_def cli_eval)
  show "exp_sane demo_matches" by (simp add: exp_sane_def dram_region_of_def demo_matches_def cli_eval)
  show "\<exists>args gs. workload_args ''gups'' = Some (args, gs) \<and> accepted demo_f32 args gs demo_gups"
    by (simp add: workload_args_def demo_gups_def cli_eval)
  have "usize_or [] demo_gups ''EXP'' = Some 30" by (simp add: demo_gups_def cli_eval)
  then show "workload_sane demo_f32 ''gups'' demo_gups" by (simp add: workload_sane_def demo_f32_def)
qed

lemma demo_config:
  "\<exists>cfg. config_of demo_f32 [] ''now'' demo_matches (Some (''gups'', demo_gups)) = Some cfg \<and> config_ok cfg \<and>
     workload cfg = Gups 4 30 None False (2 ^ 27) \<and> fbmm cfg = Some TieredMMFS \<and> hugetlb cfg = None \<and> \<not> tpp cfg \<and>
     dram_region cfg = Some \<lparr>mem_region_size = 8, mem_region_start = 4\<rparr> \<and>
     pmem_region cfg = Some \<lparr>mem_region_size = 16, mem_region_start = 12\<rparr>"
proof -
  have wl: "workload_of demo_f32 (Some (''gups'', demo_gups)) = Some (Gups 4 30 None False (2 ^ 27))"
    by (simp add: workload_of_def usize_option_def usize_shl_def demo_gups_def cli_eval)
  obtain cfg where cfg: "config_of demo_f32 [] ''now'' demo_matches (Some (''gups'', demo_gups)) = Some cfg"
    using config_total_accepted [OF demo_accepted(1,2) wl] by blast
  note f = config_fields [OF cfg]
  have "fbmm_of demo_matches = Some (Some TieredMMFS)" by (simp add: fbmm_of_def demo_matches_def cli_eval)
  moreover have d: "dram_region_of demo_matches = Some (Some \<lparr>mem_region_size = 8, mem_region_start = 4\<rparr>)"
    by (simp add: dram_region_of_def demo_matches_def cli_eval)
  moreover have "pmem_region_of (Some \<lparr>mem_region_size = 8, mem_region_start = 4\<rparr>) demo_matches =
      Some (Some \<lparr>mem_region_size = 16, mem_region_start = 12\<rparr>)"
    by (simp add: pmem_region_of_def demo_matches_def usize_checked_def decimal.simps char_of_def bit_0 cli_eval)
  moreover have "\<not> is_present demo_matches ''TPP''" "usize_option demo_matches ''HUGETLB'' = Some None"
    by (simp_all add: demo_matches_def usize_option_def is_present_def value_of_def)
  ultimately show ?thesis using cfg f wl config_ok_accepted [OF demo_accepted(1) cfg] by simp
qed

theorem accepted_config_witness:
  "\<exists>cfg. config_of demo_f32 [] ''now'' demo_matches (Some (''gups'', demo_gups)) = Some cfg \<and> config_ok cfg \<and> regions_adjacent cfg"
proof -
  obtain args gs where "workload_args ''gups'' = Some (args, gs)" "accepted demo_f32 args gs demo_gups" using demo_accepted(3) by blast
  moreover have "\<not> is_present demo_matches ''PMEM_START''" by (simp add: demo_matches_def is_present_def)
  ultimately show ?thesis using accepted_config [OF demo_accepted(1,2) _ _ demo_accepted(4)] by blast
qed

end
