(* ===== verification/Runner_Exp.thy ===== *)
theory Runner_Exp
  imports Runner_Cli
begin

text \<open>
  An experiment: \<^verbatim>\<open>run_inner\<close> of \<^verbatim>\<open>runner/src/fbmm_exp.rs\<close> and the functions it calls, as the list of
  actions that it asks the remote machine for.  Values that the library or the machine provide
  (names of files, the cores, the text of a configuration, durations) are fields of \<open>runner_env\<close>.
  \<open>Abort\<close> stands where the code panics or returns an error by itself.
\<close>

definition RESULTS_PATH :: string where "RESULTS_PATH = ''results/''"
definition RESEARCH_WORKSPACE_PATH :: string where "RESEARCH_WORKSPACE_PATH = ''research-workspace/''"
definition BMKS_PATH :: string where "BMKS_PATH = ''bmks/''"
definition SCRIPTS_PATH :: string where "SCRIPTS_PATH = ''scripts/''"
definition SPEC2017_PATH :: string where "SPEC2017_PATH = ''spec2017/''"
definition PARSEC_PATH :: string where "PARSEC_PATH = ''parsec-3.0/''"
definition KERNEL_PATH :: string where "KERNEL_PATH = ''kernel/''"

definition PERIOD :: nat where "PERIOD = 10"

datatype tctx_kind = FromLscpu bool | SimpleCores

record runner_env =
  user_home :: string
  dir_of :: "string list \<Rightarrow> string"
  gen_file_name :: "Config \<Rightarrow> string \<Rightarrow> string"
  params_file :: "Config \<Rightarrow> string"
  time_file :: "Config \<Rightarrow> string"
  gen_perf_command_prefix :: "string \<Rightarrow> string list \<Rightarrow> string \<Rightarrow> string"
  config_json :: "Config \<Rightarrow> string"
  show_f32 :: "f32 \<Rightarrow> string"
  insert_prop :: "f32 \<Rightarrow> f32 \<Rightarrow> f32"
  tctx_cores :: "tctx_kind \<Rightarrow> nat list"
  duration :: string
  timings_str :: string

section \<open>Names of files and directories\<close>

definition results_dir :: "runner_env \<Rightarrow> string" where
  "results_dir env = dir_of env [user_home env, RESULTS_PATH]"

definition result_file :: "runner_env \<Rightarrow> Config \<Rightarrow> string \<Rightarrow> string" where
  "result_file env cfg name = dir_of env [results_dir env, gen_file_name env cfg name]"

definition bmks_dir :: "runner_env \<Rightarrow> string" where
  "bmks_dir env = dir_of env [user_home env, RESEARCH_WORKSPACE_PATH, BMKS_PATH]"

definition scripts_dir :: "runner_env \<Rightarrow> string" where
  "scripts_dir env = dir_of env [user_home env, RESEARCH_WORKSPACE_PATH, SCRIPTS_PATH]"

definition in_bmks :: "runner_env \<Rightarrow> string \<Rightarrow> string" where
  "in_bmks env name = dir_of env [bmks_dir env, name]"

definition hmsdk_dir :: "runner_env \<Rightarrow> string" where
  "hmsdk_dir env = dir_of env [user_home env, ''hmsdk'']"

definition perf_record_file :: string where
  "perf_record_file = ''/tmp/perf.data''"

definition postgres_dir :: string where
  "postgres_dir = ''/usr/local/pgsql/bin/''"

section \<open>Preparing the machine\<close>

definition memmap_of :: "MemRegion \<Rightarrow> string" where
  "memmap_of r = memmap_option (mem_region_size r) (mem_region_start r)"

definition grub_actions :: "Config \<Rightarrow> action list" where
  "grub_actions cfg =
     [Sh ''cat /etc/default/grub'', GrubClear, GrubInstall] @
     (case dram_region cfg of
        None \<Rightarrow> []
      | Some dram \<Rightarrow>
          (case pmem_region cfg of
             Some pmem \<Rightarrow> [GrubAppend (memmap_of dram @ memmap_of pmem), GrubInstall]
           | None \<Rightarrow> [GrubAppend (memmap_of dram), GrubInstall])) @
     (if tpp cfg then [GrubAppend tpp_option, GrubInstall] else []) @
     [UpdateGrub]"

definition connect_and_setup_host :: "action list" where
  "connect_and_setup_host =
     [Connect, Reboot, Sleep 5, Reconnect, Lib ''dump_sys_info'' [],
      Sh ''sudo LD_LIBRARY_PATH=/usr/lib64/ cpupower frequency-set -g performance'', Sh ''lscpu'',
      Lib ''set_kernel_printk_level'' [''5'']]"

definition hugetlb_actions :: "Config \<Rightarrow> action list" where
  "hugetlb_actions cfg =
     (case hugetlb cfg of
        None \<Rightarrow> []
      | Some hugetlb_size_gb \<Rightarrow>
          (case usize_checked (hugetlb_size_gb * 1024) of
             None \<Rightarrow> [Abort ''panic'']
           | Some n \<Rightarrow>
               [Sh (''sudo hugeadm --pool-pages-min 2MB:'' @ decimal (n div 2)), Sh ''hugeadm --pool-list'']))"

definition params_action :: "runner_env \<Rightarrow> Config \<Rightarrow> action" where
  "params_action env cfg =
     Sh (''echo '' @ config_json env cfg @ '' > '' @ dir_of env [results_dir env, params_file env cfg])"

fun proc_name :: "Workload \<Rightarrow> string" where
  "proc_name (AllocTest _ _ _ _ _) = ''alloc_test''"
| "proc_name (Canneal _) = ''canneal''"
| "proc_name Spec2017Mcf = ''mcf_s''"
| "proc_name Spec2017Xalancbmk = ''xalancbmk_s''"
| "proc_name (Spec2017Xz _) = ''xz_s''"
| "proc_name Spec2017CactuBSSN = ''cactuBSSN_s''"
| "proc_name (Gups _ _ _ _ _) = ''gups''"
| "proc_name (PagewalkCoherence _) = ''paging''"
| "proc_name (Memcached _ _ _ _) = ''memcached''"
| "proc_name (Postgres _) = ''postgres''"
| "proc_name (Graph500 _) = ''graph500_refere''"
| "proc_name (Stream _) = ''stream''"

definition thp_actions :: "Config \<Rightarrow> action list" where
  "thp_actions cfg =
     [Lib ''turn_on_thp''
        ((if disable_thp cfg then [''never'', ''never'', ''0''] else [''always'', ''always'', ''1'']) @
         [''1000'', ''1000''])]"

definition aslr_actions :: "Config \<Rightarrow> action list" where
  "aslr_actions cfg = [Lib (if disable_aslr cfg then ''disable_aslr'' else ''enable_aslr'') []]"

fun tctx_of :: "Workload \<Rightarrow> tctx_kind" where
  "tctx_of (Memcached _ _ _ _) = FromLscpu True"
| "tctx_of (Postgres _) = FromLscpu True"
| "tctx_of (Gups _ _ _ _ _) = FromLscpu True"
| "tctx_of (Stream _) = FromLscpu True"
| "tctx_of (AllocTest _ _ _ _ _) = FromLscpu False"
| "tctx_of Spec2017CactuBSSN = FromLscpu False"
| "tctx_of _ = SimpleCores"

definition tctx_actions :: "Workload \<Rightarrow> action list" where
  "tctx_actions w =
     (case tctx_of w of
        FromLscpu _ \<Rightarrow> [Lib ''TasksetCtxBuilder::from_lscpu'' []]
      | SimpleCores \<Rightarrow> [Lib ''get_num_cores'' []])"

fun num_pin_cores :: "Workload \<Rightarrow> nat" where
  "num_pin_cores Spec2017Mcf = 4"
| "num_pin_cores (Spec2017Xz _) = 4"
| "num_pin_cores Spec2017Xalancbmk = 4"
| "num_pin_cores Spec2017CactuBSSN = 16"
| "num_pin_cores (Gups threads _ _ _ _) = threads"
| "num_pin_cores (AllocTest _ _ threads _ _) = threads"
| "num_pin_cores (Stream threads) = threads"
| "num_pin_cores _ = 1"

text \<open>The cores of the workload, and the cores that \<^verbatim>\<open>tctx\<close> has left.\<close>

fun take_cores :: "nat \<Rightarrow> nat list \<Rightarrow> (nat list \<times> nat list) option" where
  "take_cores 0 tctx = Some ([], tctx)"
| "take_cores (Suc n) [] = None"
| "take_cores (Suc n) (c # tctx) = map_option (\<lambda>(cs, rest). (c # cs, rest)) (take_cores n tctx)"

definition pin_cores_str :: "nat list \<Rightarrow> string" where
  "pin_cores_str cores = join '','' (map decimal cores)"

section \<open>The prefix of the workload's command\<close>

definition perf_prefix :: "runner_env \<Rightarrow> Config \<Rightarrow> nat list \<Rightarrow> string" where
  "perf_prefix env cfg cores =
     (if perf_stat cfg then
        gen_perf_command_prefix env (result_file env cfg ''perf_stat'') (perf_counters cfg)
          ('' -C '' @ pin_cores_str cores @ '' '' @
           (if perf_periodic cfg then '' -I '' @ decimal (PERIOD * 1000) @ '' '' else []))
      else []) @
     (if flame_graph cfg then
        ''sudo perf record -a -C '' @ pin_cores_str cores @ '' -g -F 1999 -o '' @ perf_record_file @ '' ''
      else [])"

definition numactl_weights :: "NodeWeight list \<Rightarrow> string" where
  "numactl_weights ws = foldl (\<lambda>s w. s @ '','' @ decimal (nid w) @ ''*'' @ decimal (weight w)) [] ws"

definition numa_prefix :: "runner_env \<Rightarrow> Config \<Rightarrow> string" where
  "numa_prefix env cfg =
     (if numactl cfg then ''numactl --membind=0 '' else []) @
     (if hmsdk_bw cfg then
        hmsdk_dir env @ ''/numactl/numactl --interleave-weight='' @ tl (numactl_weights (node_weights cfg)) @ '' ''
      else []) @
     (if hmsdk_tiered cfg then ''sudo cgexec -g memory:hmsdk '' else [])"

definition fbmm_prefix :: "runner_env \<Rightarrow> Config \<Rightarrow> string" where
  "fbmm_prefix env cfg =
     (if fbmm cfg \<noteq> None \<and> \<not> fbmm_control cfg then
        bmks_dir env @ ''/fbmm_wrapper '' @ dq @ user_home env @ ''/daxtmp/'' @ dq @ '' ''
      else []) @
     (if use_badger_trap cfg then bmks_dir env @ ''/badger-trap command '' else [])"

definition cmd_prefix :: "runner_env \<Rightarrow> Config \<Rightarrow> nat list \<Rightarrow> string" where
  "cmd_prefix env cfg cores = perf_prefix env cfg cores @ numa_prefix env cfg @ fbmm_prefix env cfg"

section \<open>Setting up the memory system\<close>

definition background_actions :: "runner_env \<Rightarrow> Config \<Rightarrow> action list" where
  "background_actions env cfg =
     (if smaps_periodic cfg then
        [Background ''smaps'' PERIOD
           (''((sudo cat /proc/`pgrep -x '' @ proc_name (workload cfg) @
            ''  | sort -n | head -n1`/smaps) || echo none) | tee -a '' @ result_file env cfg ''smaps'')]
      else []) @
     (if tmmfs_stats_periodic cfg then
        [Background ''tieredmmfs_stats'' PERIOD
           (''(cat /sys/fs/tieredmmfs/stats || echo wait) | tee -a '' @ result_file env cfg ''tmmfs_stats_periodic'')]
      else []) @
     (if tmmfs_active_list_periodic cfg then
        [Background ''tieredmmfs_active_list'' (PERIOD * 3)
           (''(cat /sys/fs/tieredmmfs/active_list || echo wait) | tee -a '' @ result_file env cfg ''tmmfs_active_list'')]
      else [])"

text \<open>The slice behind the leading comma panics when there are no weights.\<close>

definition hmsdk_actions :: "runner_env \<Rightarrow> Config \<Rightarrow> action list" where
  "hmsdk_actions env cfg =
     (if hmsdk_bw cfg \<and> numactl_weights (node_weights cfg) = [] then [Abort ''panic''] else []) @
     (if hmsdk_tiered cfg then
        [Sh (''sudo '' @ hmsdk_dir env @ ''/tools/gen_config.py -d 0 -c 1 -o hmsdk.json''),
         Sh ''sudo mkdir -p /sys/fs/cgroup/hmsdk'',
         Sh (''sudo '' @ hmsdk_dir env @ ''/damo/damo start hmsdk.json'')]
      else [])"

definition lock_stat_actions :: "Config \<Rightarrow> action list" where
  "lock_stat_actions cfg =
     (if lock_stat cfg then [Tee ''1'' ''/proc/sys/kernel/lock_stat'', Tee ''0'' ''/proc/lock_stat''] else [])"

definition mount_actions :: "Config \<Rightarrow> MMFS \<Rightarrow> action list" where
  "mount_actions cfg fs =
     (case fs of
        Ext4 \<Rightarrow>
          [Sh ''sudo mkfs.ext4 /dev/pmem0'', Sh ''sudo tune2fs -O ^has_journal /dev/pmem0''] @
          (if ext4_metadata cfg then [] else [Sh ''sudo tune2fs -O ^metadata_csum /dev/pmem0'']) @
          [Mount ''-o dax /dev/pmem0'']
      | BasicMMFS n \<Rightarrow>
          [Insmod (KERNEL_PATH @ ''/BasicMMFS/basicmmfs.ko''),
           Mount (''-t BasicMMFS BasicMMFS -o numpages='' @ decimal n)]
      | TieredMMFS \<Rightarrow>
          [Insmod (KERNEL_PATH @ ''/TieredMMFS/tieredmmfs.ko''),
           Mount (''-t TieredMMFS -o slowmem=/dev/pmem1 -o basepage='' @
                  (if disable_thp cfg then ''true'' else ''false'') @ '' /dev/pmem0'')] @
          (case migrate_task_int cfg of
             Some interval \<Rightarrow> [Tee (decimal interval) ''/sys/fs/tieredmmfs/migrate_task_int'']
           | None \<Rightarrow> [])
      | ContigMMFS \<Rightarrow>
          [Insmod (KERNEL_PATH @ ''/ContigMMFS/contigmmfs.ko''), Mount ''-t ContigMMFS ContigMMFS'']
      | BandwidthMMFS \<Rightarrow>
          [Insmod (KERNEL_PATH @ ''/BandwidthMMFS/bandwidth.ko''), Mount ''-t BandwidthMMFS BandwidthMMFS''] @
          map (\<lambda>w. Tee (decimal (weight w)) (''/sys/fs/bwmmfs*/node'' @ decimal (nid w) @ ''/weight'')) (node_weights cfg))"

definition fbmm_actions :: "Config \<Rightarrow> action list" where
  "fbmm_actions cfg =
     (case fbmm cfg of
        None \<Rightarrow> []
      | Some fs \<Rightarrow>
          [Sh ''mkdir -p ./daxtmp/''] @ mount_actions cfg fs @
          [Sh ''sudo chown -R $USER daxtmp/'', Tee ''1'' ''/sys/kernel/mm/fbmm/state''])"

definition tee_some :: "nat option \<Rightarrow> string \<Rightarrow> action list" where
  "tee_some n file = (case n of Some v \<Rightarrow> [Tee (decimal v) file] | None \<Rightarrow> [])"

definition tee_if :: "bool \<Rightarrow> string \<Rightarrow> string \<Rightarrow> action list" where
  "tee_if b v file = (if b then [Tee v file] else [])"

definition kernel_actions :: "Config \<Rightarrow> action list" where
  "kernel_actions cfg =
     (if tpp cfg then
        [Sh ''sudo sysctl kernel.numa_balancing=2'', Tee ''1'' ''/sys/kernel/mm/numa/demotion_enabled''] @
        tee_some (numa_scan_size cfg) ''/proc/sys/kernel/numa_balancing_scan_size_MB'' @
        tee_some (numa_scan_delay cfg) ''/proc/sys/kernel/numa_balancing_scan_delay_ms'' @
        tee_some (numa_scan_period_min cfg) ''/proc/sys/kernel/numa_balancing_scan_period_min_ms''
      else if fbmm cfg \<noteq> None then
        tee_some (pte_fault_size cfg) ''/sys/kernel/mm/fbmm/pte_fault_size'' @
        tee_if (thp_temporal_zero cfg) ''0'' ''/sys/kernel/mm/fbmm/nt_huge_page_zero'' @
        tee_if (no_fpm_fix cfg) ''0'' ''/sys/kernel/mm/fbmm/follow_page_mask_fix'' @
        tee_if (no_pmem_write_zeroes cfg) ''0'' ''/sys/kernel/mm/fbmm/pmem_write_zeroes'' @
        tee_if (track_pfn_insert cfg) ''1'' ''/sys/kernel/mm/fbmm/track_pfn_insert'' @
        tee_if (mark_inode_dirty cfg) ''1'' ''/sys/kernel/mm/fbmm/mark_inode_dirty'' @
        tee_if (no_prealloc cfg) ''0'' ''/sys/kernel/mm/fbmm/prealloc_map_populate''
      else [])"

text \<open>The BPF scripts: \<^verbatim>\<open>mmap_tracker.py\<close> and \<^verbatim>\<open>mm_fault_tracker.py\<close>.\<close>

definition tracker_start :: "runner_env \<Rightarrow> Config \<Rightarrow> bool \<Rightarrow> string \<Rightarrow> string \<Rightarrow> action list" where
  "tracker_start env cfg wanted script file =
     (if wanted then
        [Spawn (''sudo '' @ scripts_dir env @ ''/'' @ script @ '' -c '' @ proc_name (workload cfg) @ '' | tee '' @
                result_file env cfg file),
         Sh ''sleep 10'']
      else [])"

definition tracker_stop :: "bool \<Rightarrow> string \<Rightarrow> action list" where
  "tracker_stop wanted script =
     (if wanted then [Sh (''sudo killall -SIGINT '' @ script), Joined script] else [])"

section \<open>Workloads\<close>

definition echo_runtime :: "runner_env \<Rightarrow> Config \<Rightarrow> action" where
  "echo_runtime env cfg = Sh (''echo '' @ duration env @ '' > '' @ result_file env cfg ''runtime'')"

definition taskset :: "string \<Rightarrow> string \<Rightarrow> string" where
  "taskset cores prefix = ''sudo taskset -c '' @ cores @ '' '' @ prefix @ '' ''"

definition show_core :: "nat option \<Rightarrow> string" where
  "show_core c = (case c of Some n \<Rightarrow> decimal n | None \<Rightarrow> ''none'')"

definition show_bool :: "bool \<Rightarrow> string" where
  "show_bool b = (if b then ''true'' else ''false'')"

text \<open>The number of records that fill the cache but for one GB; \<open>None\<close> when \<^verbatim>\<open>size - 1\<close> panics.\<close>

definition record_count :: "nat \<Rightarrow> nat option" where
  "record_count sz =
     do { less \<leftarrow> usize_minus sz 1; bytes \<leftarrow> usize_shl less 30; Some (bytes div 1350) }"

definition ycsb_actions :: "runner_env \<Rightarrow> Config \<Rightarrow> string \<Rightarrow> nat list \<Rightarrow> nat list \<Rightarrow> action list" where
  "ycsb_actions env cfg prefix cores tctx =
     (let client_pin_core = (case tctx of c # _ \<Rightarrow> Some c | [] \<Rightarrow> None) in
      case workload cfg of
        Memcached sz ops rp up \<Rightarrow>
          (case record_count sz of
             None \<Rightarrow> [Abort ''panic'']
           | Some n \<Rightarrow>
               [Lib ''YcsbSession::start_and_load''
                  [''memcached'', username cfg, in_bmks env ''memcached/'', decimal (sz * 2 ^ 10 mod 2 ^ 64), decimal sz, prefix,
                   show_bool (\<not> disable_thp cfg), decimal (hd cores),
                   decimal n, decimal ops, ''Zipfian'', show_f32 env rp, show_f32 env up, show_f32 env (insert_prop env rp up),
                   show_core client_pin_core, in_bmks env ''YCSB'', result_file env cfg ''ycsb'']])
      | Postgres ops \<Rightarrow>
          [Lib ''YcsbSession::start_and_load''
             [''postgres'', postgres_dir, dir_of env [user_home env, ''pgtmp''], ''40'', username cfg, decimal (hd cores), prefix,
              (if fbmm cfg \<noteq> None then '' -c huge_pages=fbmm '' else []),
              ''1500000'', decimal ops, ''Zipfian'', ''0.0'', ''1.0'', ''0.0'',
              show_core client_pin_core, in_bmks env ''YCSB'', result_file env cfg ''ycsb'']]
      | _ \<Rightarrow> [])"

definition run_alloc_test ::
  "runner_env \<Rightarrow> Config \<Rightarrow> string \<Rightarrow> string \<Rightarrow> nat \<Rightarrow> nat \<Rightarrow> nat \<Rightarrow> bool \<Rightarrow> bool \<Rightarrow> action list" where
  "run_alloc_test env cfg prefix cores sz allocs threads use_map_populate touch_pages =
     (let populate_arg = (if use_map_populate then ''populate'' else if touch_pages then ''t'' else []) in
      [ShIn (bmks_dir env)
         (taskset cores prefix @ ''./alloc_test '' @ decimal sz @ '' '' @ decimal allocs @ '' '' @ decimal threads @ '' '' @
          populate_arg @ '' | sudo tee '' @ result_file env cfg ''alloctest''),
       echo_runtime env cfg])"

definition gups_command :: "string \<Rightarrow> string \<Rightarrow> nat \<Rightarrow> nat \<Rightarrow> nat option \<Rightarrow> bool \<Rightarrow> nat \<Rightarrow> string \<Rightarrow> string" where
  "gups_command prefix cores threads e hot move updates gups_file =
     (case hot of
        Some h \<Rightarrow>
          taskset cores prefix @ ''./gups-hotset-move '' @ decimal threads @ '' '' @ decimal updates @ '' '' @
          decimal e @ '' 8 '' @ decimal h @ '' '' @ (if move then ''1'' else ''0'') @ '' | tee '' @ gups_file
      | None \<Rightarrow>
          taskset cores prefix @ ''./gups '' @ decimal threads @ '' '' @ decimal updates @ '' '' @
          decimal e @ '' 8 | tee '' @ gups_file)"

definition run_gups ::
  "runner_env \<Rightarrow> Config \<Rightarrow> string \<Rightarrow> string \<Rightarrow> nat \<Rightarrow> nat \<Rightarrow> nat option \<Rightarrow> bool \<Rightarrow> nat \<Rightarrow> action list" where
  "run_gups env cfg prefix cores threads e hot move updates =
     [ShIn (in_bmks env ''gups/'')
        (gups_command prefix cores threads e hot move updates (result_file env cfg ''gups'')),
      echo_runtime env cfg]"

definition run_pagewalk_coherence ::
  "runner_env \<Rightarrow> Config \<Rightarrow> string \<Rightarrow> nat \<Rightarrow> PagewalkCoherenceMode \<Rightarrow> action list" where
  "run_pagewalk_coherence env cfg prefix core mode =
     (let coherence_dir = in_bmks env ''pagewalk_coherence/'' in
      [ShIn coherence_dir ''make'', ShIn coherence_dir ''sudo insmod ./pgmod.ko'',
       ShIn coherence_dir
         (taskset (decimal core) prefix @ ''./paging --mode '' @
          (case mode of Speculation \<Rightarrow> ''0'' | Coherence \<Rightarrow> ''1'') @ '' | tee '' @ result_file env cfg ''coherence''),
       echo_runtime env cfg])"

definition run_graph500 :: "runner_env \<Rightarrow> Config \<Rightarrow> string \<Rightarrow> nat \<Rightarrow> nat \<Rightarrow> action list" where
  "run_graph500 env cfg prefix core sz =
     [ShIn (in_bmks env ''graph500/src/'')
        (taskset (decimal core) prefix @ ''./graph500_reference_bfs_sssp '' @ decimal sz @ '' | tee '' @
         result_file env cfg ''graph500''),
      echo_runtime env cfg]"

definition run_stream :: "runner_env \<Rightarrow> Config \<Rightarrow> string \<Rightarrow> string \<Rightarrow> action list" where
  "run_stream env cfg prefix cores =
     [ShIn (bmks_dir env) (taskset cores prefix @ ''./stream | tee '' @ result_file env cfg ''stream''),
      echo_runtime env cfg]"

fun canneal_name :: "CannealWorkload \<Rightarrow> string" where
  "canneal_name CannealSmall = ''Small''"
| "canneal_name CannealMedium = ''Medium''"
| "canneal_name CannealLarge = ''Large''"
| "canneal_name CannealNative = ''Native''"

definition spec17_action :: "runner_env \<Rightarrow> Config \<Rightarrow> string \<Rightarrow> nat list \<Rightarrow> string list \<Rightarrow> action" where
  "spec17_action env cfg prefix cores wkload =
     Timed (Lib ''run_spec17''
       ([in_bmks env SPEC2017_PATH] @ wkload @ [prefix, result_file env cfg ''runtime'', pin_cores_str cores]))"

definition workload_actions :: "runner_env \<Rightarrow> Config \<Rightarrow> string \<Rightarrow> nat list \<Rightarrow> action list" where
  "workload_actions env cfg prefix cores =
     (case workload cfg of
        AllocTest sz allocs threads use_map_populate touch_pages \<Rightarrow>
          map Timed (run_alloc_test env cfg prefix (pin_cores_str cores) sz allocs threads use_map_populate touch_pages)
      | Canneal w \<Rightarrow>
          [Timed (Lib ''run_canneal''
             [dir_of env [user_home env, PARSEC_PATH], canneal_name w, prefix, result_file env cfg ''runtime'', decimal (hd cores)])]
      | Spec2017Mcf \<Rightarrow> [spec17_action env cfg prefix cores [''Mcf'']]
      | Spec2017Xz sz \<Rightarrow> [spec17_action env cfg prefix cores [''Xz'', decimal sz]]
      | Spec2017Xalancbmk \<Rightarrow> [spec17_action env cfg prefix cores [''Xalancbmk'']]
      | Spec2017CactuBSSN \<Rightarrow> [spec17_action env cfg prefix cores [''CactuBSSN'']]
      | Gups threads e hot move updates \<Rightarrow>
          map Timed (run_gups env cfg prefix (pin_cores_str cores) threads e hot move updates)
      | PagewalkCoherence mode \<Rightarrow> map Timed (run_pagewalk_coherence env cfg prefix (hd cores) mode)
      | Memcached _ _ _ _ \<Rightarrow>
          [Timed (Lib ''YcsbSession::run'' []), Sh ''sudo pkill -INT memcached'',
           UntilFails (in_bmks env ''memcached/'' @ ''/scripts/memcached-tool localhost:11211''), Sleep 20]
      | Postgres _ \<Rightarrow>
          [Timed (Lib ''YcsbSession::run'' []), Sh ''sudo pkill -INT postgres'',
           UntilFails (postgres_dir @ ''/pg_isready''), Sleep 20]
      | Graph500 sz \<Rightarrow> map Timed (run_graph500 env cfg prefix (hd cores) sz)
      | Stream _ \<Rightarrow> map Timed (run_stream env cfg prefix (pin_cores_str cores)))"

section \<open>Results\<close>

definition stats_actions :: "runner_env \<Rightarrow> Config \<Rightarrow> action list" where
  "stats_actions env cfg =
     (case fbmm cfg of
        None \<Rightarrow> []
      | Some fs \<Rightarrow>
          [Sh (''cat /sys/kernel/mm/fbmm/stats | tee '' @ result_file env cfg ''fbmm_stats'')] @
          (if fs = TieredMMFS then [Sh (''cat /sys/fs/tieredmmfs/stats | tee '' @ result_file env cfg ''tieredmmfs_stats'')]
           else [])) @
     [Sh (''cat /proc/vmstat | tee '' @ result_file env cfg ''vmstat'')] @
     (if flame_graph cfg then
        [Sh (''sudo perf script -i '' @ perf_record_file @ '' | ./FlameGraph/stackcollapse-perf.pl > /tmp/flamegraph''),
         Sh (''./FlameGraph/flamegraph.pl /tmp/flamegraph > '' @ result_file env cfg ''flamegraph.svg'')]
      else []) @
     (if lock_stat cfg then [Sh (''sudo cat /proc/lock_stat | sudo tee '' @ result_file env cfg ''lock_stat'')] else []) @
     (if use_badger_trap cfg then [Sh (''dmesg | tail -n 10 | sudo tee '' @ result_file env cfg ''badger_trap'')] else []) @
     (if hmsdk_tiered cfg then
        [Sh (''sudo '' @ hmsdk_dir env @ ''/damo/damo status | sudo tee '' @ result_file env cfg ''damo_status'')]
      else [])"

definition final_actions :: "runner_env \<Rightarrow> Config \<Rightarrow> action list" where
  "final_actions env cfg =
     tracker_stop (mm_fault_tracker cfg) ''mm_fault_tracker.py'' @
     tracker_stop (mmap_tracker cfg) ''mmap_tracker.py'' @
     [Sh ''date'', Sh ''free -h'',
      Sh (''echo '' @ timings_str env @ '' > '' @ dir_of env [results_dir env, time_file env cfg])]"

section \<open>The experiment\<close>

definition memory_actions :: "runner_env \<Rightarrow> Config \<Rightarrow> action list" where
  "memory_actions env cfg =
     background_actions env cfg @ hmsdk_actions env cfg @ lock_stat_actions cfg @ fbmm_actions cfg @ kernel_actions cfg @
     tracker_start env cfg (mmap_tracker cfg) ''mmap_tracker.py'' ''mmap_tracker''"

definition run_inner :: "runner_env \<Rightarrow> Config \<Rightarrow> action list" where
  "run_inner env cfg =
     [Connect, Lib ''get_user_home_dir'' []] @ grub_actions cfg @ connect_and_setup_host @ hugetlb_actions cfg @
     [params_action env cfg] @ thp_actions cfg @ aslr_actions cfg @ tctx_actions (workload cfg) @
     (case take_cores (num_pin_cores (workload cfg)) (tctx_cores env (tctx_of (workload cfg))) of
        None \<Rightarrow> [Abort ''no core'']
      | Some (cores, tctx) \<Rightarrow>
          memory_actions env cfg @
          ycsb_actions env cfg (cmd_prefix env cfg cores) cores tctx @
          tracker_start env cfg (mm_fault_tracker cfg) ''mm_fault_tracker.py'' ''mm_fault'' @
          workload_actions env cfg (cmd_prefix env cfg cores) cores @
          stats_actions env cfg @ final_actions env cfg)"

definition run_exp ::
  "runner_env \<Rightarrow> (string \<Rightarrow> f32 option) \<Rightarrow> (string \<times> string) list \<Rightarrow> string \<Rightarrow> matches \<Rightarrow> (string \<times> matches) option \<Rightarrow> action list" where
  "run_exp env pf settings now m subcommand =
     (case config_of pf settings now m subcommand of
        None \<Rightarrow> [Abort ''panic'']
      | Some cfg \<Rightarrow> [Connect, Lib ''get_remote_research_settings'' []] @ run_inner env cfg)"

section \<open>Lemmas\<close>

definition fbmm_state :: string where
  "fbmm_state = ''/sys/kernel/mm/fbmm/state''"

text \<open>Actions that start the workload: what is timed, and the server that a YCSB session starts.\<close>

fun is_workload :: "action \<Rightarrow> bool" where
  "is_workload (Timed a) = True"
| "is_workload (Lib f args) = (f = ''YcsbSession::start_and_load'')"
| "is_workload _ = False"

text \<open>Actions that leave the booted options, the state of FBMM and the mounts alone.\<close>

fun keeps :: "action \<Rightarrow> bool" where
  "keeps (Tee v f) = (f \<noteq> fbmm_state)"
| "keeps (Mount args) = False"
| "keeps Reboot = False"
| "keeps (Timed a) = keeps a"
| "keeps _ = True"

definition memory_view :: "host_state \<Rightarrow> string \<times> string option \<times> string list" where
  "memory_view w = (booted w, sysfs w fbmm_state, mounts w)"

lemma keeps_effect: "keeps a \<Longrightarrow> memory_view (effect a w) = memory_view w"
  by (induction a w rule: effect.induct) (auto simp: memory_view_def)

lemma keeps_fold: "list_all keeps as \<Longrightarrow> memory_view (fold effect as w) = memory_view w"
  by (induction as arbitrary: w) (simp_all add: keeps_effect)

definition boot_options :: "Config \<Rightarrow> string" where
  "boot_options cfg =
     concat (map (\<lambda>(a, b). memmap_option a b)
       (case dram_region cfg of
          None \<Rightarrow> []
        | Some d \<Rightarrow> (mem_region_size d, mem_region_start d) #
            (case pmem_region cfg of None \<Rightarrow> [] | Some p \<Rightarrow> [(mem_region_size p, mem_region_start p)]))) @
     (if tpp cfg then tpp_option else [])"

lemma grub_effect:
  assumes "clean_options g" "grub_file w = g @ boot_options old"
  shows "grub_cfg (fold effect (grub_actions cfg) w) = g @ boot_options cfg"
proof -
  have "grub_clear (grub_file w) = g"
    using clear_added_options [OF assms(1)] unfolding assms(2) boot_options_def by blast
  then show ?thesis by (auto simp: grub_actions_def boot_options_def memmap_of_def split: option.splits)
qed

definition before_memory :: "runner_env \<Rightarrow> Config \<Rightarrow> action list" where
  "before_memory env cfg =
     [Connect, Lib ''get_user_home_dir'' []] @ grub_actions cfg @ connect_and_setup_host @ hugetlb_actions cfg @
     [params_action env cfg] @ thp_actions cfg @ aslr_actions cfg @ tctx_actions (workload cfg)"

definition after_memory :: "runner_env \<Rightarrow> Config \<Rightarrow> nat list \<Rightarrow> nat list \<Rightarrow> action list" where
  "after_memory env cfg cores tctx =
     ycsb_actions env cfg (cmd_prefix env cfg cores) cores tctx @
     tracker_start env cfg (mm_fault_tracker cfg) ''mm_fault_tracker.py'' ''mm_fault'' @
     workload_actions env cfg (cmd_prefix env cfg cores) cores @
     stats_actions env cfg @ final_actions env cfg"

lemma run_inner_parts:
  "run_inner env cfg = before_memory env cfg @
     (case take_cores (num_pin_cores (workload cfg)) (tctx_cores env (tctx_of (workload cfg))) of
        None \<Rightarrow> [Abort ''no core'']
      | Some (cores, tctx) \<Rightarrow> memory_actions env cfg @ after_memory env cfg cores tctx)"
  by (simp add: run_inner_def before_memory_def after_memory_def split: option.split)

lemma before_memory_effect:
  assumes "clean_options g" "grub_file w = g @ boot_options old"
  shows "memory_view (fold effect (before_memory env cfg) w) = (g @ boot_options cfg, None, [])"
proof -
  let ?w = "fold effect (grub_actions cfg) w"
  let ?rest = "[Sleep 5, Reconnect, Lib ''dump_sys_info'' [],
      Sh ''sudo LD_LIBRARY_PATH=/usr/lib64/ cpupower frequency-set -g performance'', Sh ''lscpu'',
      Lib ''set_kernel_printk_level'' [''5'']] @ hugetlb_actions cfg @
     [params_action env cfg] @ thp_actions cfg @ aslr_actions cfg @ tctx_actions (workload cfg)"
  have "list_all keeps ?rest"
    by (simp add: hugetlb_actions_def params_action_def thp_actions_def aslr_actions_def tctx_actions_def split: option.split tctx_kind.split)
  then have "memory_view (fold effect ?rest (effect Reboot ?w)) = memory_view (effect Reboot ?w)" by (rule keeps_fold)
  also have "\<dots> = (g @ boot_options cfg, None, [])" using grub_effect [OF assms] by (simp add: memory_view_def)
  finally show ?thesis by (simp add: before_memory_def connect_and_setup_host_def)
qed

lemma mount_actions_parts:
  "\<exists>pre args post. mount_actions cfg fs = pre @ Mount args # post \<and> list_all keeps pre \<and> list_all keeps post"
proof -
  have one: "mount_actions cfg fs = [Insmod m] @ Mount args # post \<Longrightarrow> list_all keeps post \<Longrightarrow> ?thesis" for m args post
    by (intro exI [of _ "[Insmod m]"]) auto
  show ?thesis
  proof (cases fs)
    case Ext4
    then show ?thesis
      by (intro exI [of _ "[Sh ''sudo mkfs.ext4 /dev/pmem0'', Sh ''sudo tune2fs -O ^has_journal /dev/pmem0''] @
          (if ext4_metadata cfg then [] else [Sh ''sudo tune2fs -O ^metadata_csum /dev/pmem0''])"]
          exI [of _ "''-o dax /dev/pmem0''"] exI [of _ "[]"]) (simp add: mount_actions_def)
  qed (rule one, simp add: mount_actions_def, simp add: list.pred_map comp_def list.pred_True fbmm_state_def split: option.split)+
qed

lemma fbmm_actions_effect:
  assumes "memory_view w = (b, None, [])"
  shows "\<exists>ms. memory_view (fold effect (fbmm_actions cfg) w) = (b, if fbmm cfg = None then None else Some ''1'', ms) \<and>
    (case fbmm cfg of None \<Rightarrow> ms = [] | Some fs \<Rightarrow> \<exists>args. ms = [args] \<and> Mount args \<in> set (mount_actions cfg fs))"
proof (cases "fbmm cfg")
  case (Some fs)
  obtain pre args post where m: "mount_actions cfg fs = pre @ Mount args # post" "list_all keeps pre" "list_all keeps post"
    using mount_actions_parts by blast
  have "memory_view (fold effect (mount_actions cfg fs) w) = (b, None, [args])"
    using assms keeps_fold [OF m(2), of w] keeps_fold [OF m(3)] unfolding m(1) by (simp add: memory_view_def)
  then show ?thesis using Some m(1) by (auto simp: fbmm_actions_def memory_view_def fbmm_state_def)
qed (use assms in \<open>simp add: fbmm_actions_def\<close>)

lemma memory_actions_effect:
  assumes "memory_view w = (b, None, [])"
  shows "\<exists>ms. memory_view (fold effect (memory_actions env cfg) w) = (b, if fbmm cfg = None then None else Some ''1'', ms) \<and>
    (case fbmm cfg of None \<Rightarrow> ms = [] | Some fs \<Rightarrow> \<exists>args. ms = [args] \<and> Mount args \<in> set (mount_actions cfg fs))"
proof -
  let ?pre = "background_actions env cfg @ hmsdk_actions env cfg @ lock_stat_actions cfg"
  let ?post = "kernel_actions cfg @ tracker_start env cfg (mmap_tracker cfg) ''mmap_tracker.py'' ''mmap_tracker''"
  have "list_all keeps ?pre"
    by (simp add: background_actions_def hmsdk_actions_def lock_stat_actions_def fbmm_state_def)
  from keeps_fold [OF this] have "memory_view (fold effect ?pre w) = (b, None, [])" using assms by simp
  note fbmm = fbmm_actions_effect [OF this, of cfg]
  have "list_all keeps ?post"
    by (simp add: kernel_actions_def tee_some_def tee_if_def tracker_start_def fbmm_state_def split: option.split)
  from keeps_fold [OF this, of "fold effect (fbmm_actions cfg) (fold effect ?pre w)"]
  show ?thesis using fbmm by (simp add: memory_actions_def)
qed

lemma after_memory_keeps: "list_all keeps (after_memory env cfg cores tctx)"
proof -
  have "list_all keeps (ycsb_actions env cfg p cores tctx)" for p
    by (simp add: ycsb_actions_def Let_def split: Workload.split option.split)
  moreover have "list_all keeps (workload_actions env cfg p cores)" for p
    by (simp add: workload_actions_def run_alloc_test_def run_gups_def run_pagewalk_coherence_def run_graph500_def run_stream_def
        spec17_action_def echo_runtime_def Let_def split: Workload.split)
  moreover have "list_all keeps (stats_actions env cfg @ final_actions env cfg)"
    by (simp add: stats_actions_def final_actions_def tracker_stop_def split: option.split)
  moreover have "list_all keeps (tracker_start env cfg b s f)" for b s f by (simp add: tracker_start_def)
  ultimately show ?thesis by (simp add: after_memory_def)
qed

lemma set_up_no_workload:
  "list_all (\<lambda>a. \<not> is_workload a) (before_memory env cfg)" "list_all (\<lambda>a. \<not> is_workload a) (memory_actions env cfg)"
proof -
  show "list_all (\<lambda>a. \<not> is_workload a) (before_memory env cfg)"
    by (simp add: before_memory_def grub_actions_def connect_and_setup_host_def hugetlb_actions_def params_action_def thp_actions_def
        aslr_actions_def tctx_actions_def split: option.split tctx_kind.split)
  have "list_all (\<lambda>a. \<not> is_workload a) (fbmm_actions cfg)"
    by (simp add: fbmm_actions_def mount_actions_def list.pred_map comp_def list.pred_True split: option.split MMFS.split)
  then show "list_all (\<lambda>a. \<not> is_workload a) (memory_actions env cfg)"
    by (simp add: memory_actions_def background_actions_def hmsdk_actions_def lock_stat_actions_def kernel_actions_def tee_some_def
        tee_if_def tracker_start_def split: option.split)
qed

lemma behind_quiet_part:
  "list_all (\<lambda>a. \<not> P a) xs \<Longrightarrow> P a \<Longrightarrow> xs @ ys = pre @ a # post \<Longrightarrow> \<exists>pre'. pre = xs @ pre' \<and> ys = pre' @ a # post"
  by (induction xs arbitrary: pre) (auto simp: Cons_eq_append_conv)

section \<open>The environment of a workload\<close>


section \<open>Experiments complete\<close>

definition no_abort :: "action \<Rightarrow> bool" where
  "no_abort a \<longleftrightarrow> (\<forall>e. a \<noteq> Abort e)"

lemma no_abort_simps [simp]: "no_abort (Abort e) = False" "no_abort Connect" "no_abort Reconnect" "no_abort Reboot" "no_abort (Sh c)"
  "no_abort (ShIn d c)" "no_abort (Tee v f)" "no_abort (Insmod m)" "no_abort (Mount x)" "no_abort GrubClear" "no_abort (GrubAppend y)"
  "no_abort GrubInstall" "no_abort UpdateGrub" "no_abort (Spawn c)" "no_abort (Joined c)" "no_abort (Background n k c)"
  "no_abort (UntilFails c)" "no_abort (Sleep k)" "no_abort (Lib f xs)" "no_abort (Timed b)"
  by (simp_all add: no_abort_def)

lemma numactl_weights_empty: "numactl_weights ws = [] \<longleftrightarrow> ws = []"
  by (cases ws rule: rev_cases) (simp_all add: numactl_weights_def)

lemma take_cores_Some: "n \<le> length cs \<Longrightarrow> take_cores n cs = Some (take n cs, drop n cs)"
  by (induction n cs rule: take_cores.induct) auto

text \<open>Sizes for which no arithmetic of the run overflows, and a machine with enough cores.\<close>

definition run_feasible :: "runner_env \<Rightarrow> Config \<Rightarrow> bool" where
  "run_feasible env cfg \<longleftrightarrow>
     num_pin_cores (workload cfg) \<le> length (tctx_cores env (tctx_of (workload cfg))) \<and>
     (case hugetlb cfg of Some gb \<Rightarrow> gb < 2 ^ 54 | None \<Rightarrow> True) \<and>
     (case workload cfg of Memcached sz _ _ _ \<Rightarrow> 0 < sz | _ \<Rightarrow> True)"

lemma run_inner_no_abort:
  assumes "config_ok cfg" "run_feasible env cfg"
  shows "list_all no_abort (run_inner env cfg)"
proof -
  have "list_all no_abort (hugetlb_actions cfg)"
    using assms(2) by (auto simp: hugetlb_actions_def usize_checked_def run_feasible_def split: option.splits)
  then have before: "list_all no_abort (before_memory env cfg)"
    by (simp add: before_memory_def grub_actions_def connect_and_setup_host_def params_action_def thp_actions_def
        aslr_actions_def tctx_actions_def split: option.split tctx_kind.split)
  have "list_all no_abort (fbmm_actions cfg)"
    by (simp add: fbmm_actions_def mount_actions_def list.pred_map comp_def list.pred_True split: option.split MMFS.split)
  then have memory: "list_all no_abort (memory_actions env cfg)"
    using assms(1) by (simp add: memory_actions_def background_actions_def hmsdk_actions_def numactl_weights_empty lock_stat_actions_def
        kernel_actions_def tee_some_def tee_if_def tracker_start_def config_ok_def split: option.split)
  have "list_all no_abort (ycsb_actions env cfg p cores tctx)" for p cores tctx
    using assms(2) by (auto simp: ycsb_actions_def record_count_def usize_minus_def usize_shl_def run_feasible_def Let_def
        split: Workload.splits option.split)
  moreover have "list_all no_abort (workload_actions env cfg p cores)" for p cores
    by (simp add: workload_actions_def run_alloc_test_def run_gups_def run_pagewalk_coherence_def run_graph500_def run_stream_def
        spec17_action_def echo_runtime_def Let_def split: Workload.split)
  ultimately have after: "list_all no_abort (after_memory env cfg cores tctx)" for cores tctx
    by (simp add: after_memory_def tracker_start_def stats_actions_def final_actions_def tracker_stop_def split: option.split)
  have "take_cores (num_pin_cores (workload cfg)) (tctx_cores env (tctx_of (workload cfg))) \<noteq> None"
    using assms(2) take_cores_Some by (simp add: run_feasible_def)
  then show ?thesis using before memory after by (auto simp: run_inner_parts)
qed

lemma run_completes:
  assumes "config_ok cfg" "run_feasible env cfg" "settles h" "\<forall>l a. treats a = Needed \<longrightarrow> h l a"
  shows "\<exists>s'. exec h (run_inner env cfg) s = Some (Inr (), s') \<and> set (run_inner env cfg) \<subseteq> fst ` set (run_log s')"
proof -
  obtain r s' where run: "exec h (run_inner env cfg) s = Some (r, s')" using exec_returns [OF assms(3)] by fastforce
  have "\<forall>a\<in>set (run_inner env cfg). treats a \<noteq> Stop e" for e
    using run_inner_no_abort [OF assms(1,2)] by (auto simp: list_all_iff no_abort_def elim!: treats.elims)
  then have "r = Inr () \<and> set (run_inner env cfg) \<subseteq> fst ` set (run_log s')"
    using run assms(4) by (intro exec_completes)
  then show ?thesis using run by blast
qed


section \<open>An example\<close>

definition demo_runner :: runner_env where
  "demo_runner = \<lparr>user_home = ''/home/user'', dir_of = join ''/'', gen_file_name = (\<lambda>cfg name. exp_name cfg @ ''.'' @ name),
     params_file = (\<lambda>cfg. exp_name cfg @ ''.params''), time_file = (\<lambda>cfg. exp_name cfg @ ''.time''),
     gen_perf_command_prefix = (\<lambda>file counters args. ''perf stat -o '' @ file @ args), config_json = (\<lambda>cfg. exp_name cfg),
     show_f32 = (\<lambda>x. decimal (unat x)), insert_prop = (\<lambda>r u. 0), tctx_cores = (\<lambda>k. [0..<8]), duration = ''1000'', timings_str = ''1''\<rparr>"

definition demo_host :: host where
  "demo_host l a = (treats a \<noteq> Repeat)"

definition demo_run :: run_state where
  "demo_run = \<lparr>world = \<lparr>grub_tmp = [], grub_file = ''quiet splash memmap=3G!4G'', grub_cfg = [], booted = [],
     sysfs = Map.empty, mounts = [], modules = []\<rparr>, run_log = []\<rparr>"

lemma demo_host_good: "settles demo_host" "treats a = Needed \<Longrightarrow> demo_host l a" "demo_host l Reboot"
  by (simp_all add: settles_def demo_host_def)

lemma demo_feasible: "workload cfg = Gups 4 30 None False (2 ^ 27) \<Longrightarrow> hugetlb cfg = None \<Longrightarrow> run_feasible demo_runner cfg"
  by (simp add: run_feasible_def demo_runner_def)



end
