(* ===== verification/Runner_Setup.thy ===== *)
theory Runner_Setup
  imports Runner_Exp
begin

text \<open>
  The two commands of the runner that prepare a machine: \<^verbatim>\<open>runner/src/setup_wkspc.rs\<close> installs
  software and the workspace, \<^verbatim>\<open>runner/src/setup_kernel.rs\<close> builds and installs a kernel and the
  modules of the FBMM file systems; and the choice between the commands in \<^verbatim>\<open>runner/src/main.rs\<close>.
  As for the experiments, a command is the list of its actions.
\<close>

section \<open>The workspace\<close>

definition wkspc_args :: "arg_spec list" where
  "wkspc_args =
    [is_required (text_arg ''HOSTNAME''),
     is_required (text_arg ''USERNAME''),
     flag ''HOST_DEP'',
     flag ''RESIZE_ROOT'',
     arg ManyValues ''SWAP_DEVS'',
     flag ''UNSTABLE_DEVICE_NAMES'',
     flag ''CLONE_WKSPC'',
     needing [''CLONE_WKSPC''] (text_arg ''GIT_USER''),
     needing [''CLONE_WKSPC''] (text_arg ''WKSPC_BRANCH''),
     flag ''HMSDK'',
     text_arg ''SECRET'',
     flag ''HOST_BMKS'',
     text_arg ''SPEC_2017'',
     flag ''JEMALLOC'']"

record SetupConfig =
  host_dep :: bool
  resize_root :: bool
  swap_devices :: "string list option"
  unstable_names :: bool
  clone_wkspc :: bool
  git_user :: "string option"
  wkspc_branch :: "string option"
  secret :: "string option"
  host_bmks :: bool
  spec_2017 :: "string option"
  hmsdk :: bool
  jemalloc :: bool

definition setup_config_of :: "matches \<Rightarrow> SetupConfig" where
  "setup_config_of m =
     \<lparr>host_dep = is_present m ''HOST_DEP'', resize_root = is_present m ''RESIZE_ROOT'',
      swap_devices = m ''SWAP_DEVS'', unstable_names = is_present m ''UNSTABLE_DEVICE_NAMES'',
      clone_wkspc = is_present m ''CLONE_WKSPC'', git_user = value_of m ''GIT_USER'',
      wkspc_branch = value_of m ''WKSPC_BRANCH'', secret = value_of m ''SECRET'',
      host_bmks = is_present m ''HOST_BMKS'', spec_2017 = value_of m ''SPEC_2017'',
      hmsdk = is_present m ''HMSDK'', jemalloc = is_present m ''JEMALLOC''\<rparr>"

text \<open>What the library and the machine answer.\<close>

record setup_env =
  setup_dir :: "string list \<Rightarrow> string"
  num_cores :: nat
  unpartitioned_devs :: "string list"
  device_id :: "string \<Rightarrow> string"

definition or_default :: "string \<Rightarrow> string option \<Rightarrow> string" where
  "or_default d x = (case x of Some v \<Rightarrow> v | None \<Rightarrow> d)"

definition install_host_dependencies :: "action list" where
  "install_host_dependencies =
     [Sh ''sudo apt update; sudo apt upgrade -y'',
      Lib ''apt_install''
        [''build-essential'', ''libssl-dev'', ''libelf-dev'', ''libdw-dev'', ''libncurses-dev'', ''libevent-dev'',
         ''dwarves'', ''libpci-dev'', ''numactl'', ''linux-tools-common'', ''openjdk-8-jdk'', ''fuse'',
         ''redis-server'', ''python2'', ''python3'', ''cmake'', ''gfortran'', ''curl'', ''bpfcc-tools'',
         ''libhugetlbfs-bin'', ''maven'', ''mpich'', ''libicu-dev'', ''libreadline-dev'', ''autoconf'',
         ''pkgconf'', ''debhelper'', ''bison'', ''flex'', ''libtool'', ''systemtap-sdt-dev'', ''libunwind-dev'',
         ''libslang2-dev'', ''libperl-dev'', ''python-dev-is-python3'', ''libzstd-dev'', ''libcap-dev'',
         ''libnuma-dev'', ''libbabeltrace-dev'', ''libtraceevent-dev'', ''libpfm4-dev'', ''cgroup-tools''],
      Lib ''clone_git_repo'' [''HttpsPublic'', ''github.com/brendangregg/FlameGraph.git'']]"

definition clone_research_workspace :: "SetupConfig \<Rightarrow> action list" where
  "clone_research_workspace cfg =
     [Lib ''clone_git_repo''
        [''HttpsPrivate'', ''github.com/BijanT/fom-research-workspace.git'', or_default [] (git_user cfg),
         ''research-workspace'', or_default ''main'' (wkspc_branch cfg), or_default [] (secret cfg),
         ''libscail'', ''bmks/YCSB'', ''bmks/memcached'', ''bmks/graph500'']]"

definition wkspc_bmk :: "setup_env \<Rightarrow> string \<Rightarrow> string" where
  "wkspc_bmk env name = setup_dir env [RESEARCH_WORKSPACE_PATH, BMKS_PATH, name]"

definition build_host_benchmarks :: "setup_env \<Rightarrow> action list" where
  "build_host_benchmarks env =
     [Lib ''get_num_cores'' [],
      Sh (''mkdir -p '' @ RESULTS_PATH),
      ShIn (setup_dir env [RESEARCH_WORKSPACE_PATH, BMKS_PATH]) ''make'',
      Lib ''clone_git_repo'' [''HttpsPublic'', ''github.com/bamos/parsec-benchmark.git'', ''parsec-3.0''],
      ShIn ''parsec-3.0/bin/'' ''./parsecmgmt -a build -p canneal'',
      ShIn (wkspc_bmk env ''memcached'') ''./autogen.sh'',
      ShIn (wkspc_bmk env ''memcached'') ''./configure'',
      ShIn (wkspc_bmk env ''memcached'') (''make -j '' @ decimal (num_cores env)),
      ShIn (wkspc_bmk env ''YCSB'') ''mvn clean package'',
      ShIn (wkspc_bmk env ''graph500/src'') ''sed -i 's/LDFLAGS = -lpthread/LDFLAGS = -pthread/g' ./Makefile'',
      ShIn (wkspc_bmk env ''postgres'') ''./configure'',
      ShIn (wkspc_bmk env ''postgres'') ''make'',
      ShIn (wkspc_bmk env ''postgres'') ''sudo make install'']"

definition swap_name :: "setup_env \<Rightarrow> SetupConfig \<Rightarrow> string \<Rightarrow> string" where
  "swap_name env cfg dev =
     (if unstable_names cfg then setup_dir env [''disk/by-id/'', device_id env dev] else dev)"

definition mkswap :: "string \<Rightarrow> action" where
  "mkswap dev = Sh (''sudo mkswap /dev/'' @ dev)"

definition set_up_host_devices :: "setup_env \<Rightarrow> SetupConfig \<Rightarrow> action list" where
  "set_up_host_devices env cfg =
     [Sh ''sudo sed -i 's/^.*swap.*$/#& # COMMENTED OUT BY setup_wkspc/' /etc/fstab''] @
     (if resize_root cfg then [Lib ''resize_root_partition'' []] else []) @
     (case swap_devices cfg of
        None \<Rightarrow> []
      | Some swap_devs \<Rightarrow>
          if swap_devs = [] then
            Lib ''get_unpartitioned_devs'' [] # map mkswap (unpartitioned_devs env)
          else
            concat (map (\<lambda>dev.
              (if unstable_names cfg then [Lib ''get_device_id'' [dev]] else []) @ [mkswap (swap_name env cfg dev)]) swap_devs) @
            [Lib ''set_remote_research_setting'' (''swap-devices'' # map (swap_name env cfg) swap_devs)])"

definition setup_wkspc :: "setup_env \<Rightarrow> SetupConfig \<Rightarrow> action list" where
  "setup_wkspc env cfg =
     [Connect] @
     (if host_dep cfg then install_host_dependencies @ [Lib ''install_rust'' []] else []) @
     set_up_host_devices env cfg @
     (if clone_wkspc cfg then clone_research_workspace cfg else []) @
     (if jemalloc cfg then [Lib ''install_jemalloc'' []] else []) @
     (if host_bmks cfg then build_host_benchmarks env else []) @
     (case spec_2017 cfg of
        None \<Rightarrow> []
      | Some iso_path \<Rightarrow>
          [Lib ''install_spec_2017''
             [iso_path, ''spec-linux-x86.cfg'', setup_dir env [RESEARCH_WORKSPACE_PATH, BMKS_PATH, SPEC2017_PATH]]]) @
     (if hmsdk cfg then
        [Lib ''clone_git_repo'' [''HttpsPublic'', ''github.com/skhynix/hmsdk/'', ''hmsdk'', ''main'', ''numactl'', ''damo''],
         ShIn ''hmsdk/numactl/'' ''./autogen.sh'', ShIn ''hmsdk/numactl/'' ''./configure'', ShIn ''hmsdk/numactl/'' ''make'']
      else []) @
     [Sh ''echo DONE'']"

section \<open>The kernel\<close>

definition kernel_args :: "arg_spec list" where
  "kernel_args =
    [is_required (text_arg ''HOSTNAME''),
     is_required (text_arg ''USERNAME''),
     is_required (text_arg ''REPO''),
     text_arg ''BRANCH'',
     is_required (text_arg ''GIT_USER''),
     text_arg ''SECRET'',
     arg ManyValues ''CONFIGS'',
     flag ''INSTALL_PERF'',
     flag ''BUILD_MMFS'']"

definition config_char :: "char \<Rightarrow> bool" where
  "config_char c \<longleftrightarrow> c_digit c \<noteq> None \<or> c = CHR ''_''"

definition check_name :: "string \<Rightarrow> string + string" where
  "check_name s =
     (if s = [] then Inl ''Empty string is not a valid option''
      else if list_all config_char s then Inr s
      else Inl ''Invalid config name'')"

text \<open>
  \<open>None\<close> is the panic of the slice \<^verbatim>\<open>&opt[0..1]\<close> when the first character is not ASCII; \<open>Inl\<close> is an
  error that the function returns.
\<close>

definition parse_config_option :: "string \<Rightarrow> (string + (string \<times> bool)) option" where
  "parse_config_option opt =
     (case opt of
        [] \<Rightarrow> Some (Inl ''Empty string is not a valid option'')
      | c # rest \<Rightarrow>
          if 128 \<le> (of_char c :: nat) then None
          else if c = CHR ''+'' then Some (map_sum id (\<lambda>s. (s, True)) (check_name rest))
          else if c = CHR ''-'' then Some (map_sum id (\<lambda>s. (s, False)) (check_name rest))
          else Some (Inl ''Kernel config option must be prefixed with + or -''))"

definition config_option :: "string \<Rightarrow> (string \<times> bool) option" where
  "config_option opt = (case parse_config_option opt of Some (Inr x) \<Rightarrow> Some x | _ \<Rightarrow> None)"

definition kernel_config :: "matches \<Rightarrow> (string \<times> bool) list option" where
  "kernel_config m = all_some (map config_option (values_of m ''CONFIGS''))"

record kernel_env =
  kernel_home :: string
  kernel_dir :: "string list \<Rightarrow> string"
  boot_config :: string
  gen_local_version :: "string \<Rightarrow> string"
  kernel_deb :: string
  kernel_headers_deb :: string

definition mmfs_dirs :: "string list" where
  "mmfs_dirs = [''BasicMMFS/'', ''TieredMMFS/'', ''ContigMMFS/'', ''BandwidthMMFS/'']"

definition show_option :: "string \<times> bool \<Rightarrow> string" where
  "show_option x = (if snd x then ''+'' else ''-'') @ fst x"

definition setup_kernel :: "kernel_env \<Rightarrow> matches \<Rightarrow> action list" where
  "setup_kernel env m =
     (let branch = or_default ''main'' (value_of m ''BRANCH'');
          kernel_path = kernel_dir env [kernel_home env, KERNEL_PATH];
          perf_path = kernel_dir env [kernel_path, ''tools/perf/''];
          git_repo = (case value_of m ''SECRET'' of
                        Some _ \<Rightarrow> [''HttpsPrivate'', or_default [] (value_of m ''REPO''), or_default [] (value_of m ''GIT_USER'')]
                      | None \<Rightarrow> [''HttpsPublic'', or_default [] (value_of m ''REPO'')])
      in case kernel_config m of
           None \<Rightarrow> [Abort ''panic'']
         | Some opts \<Rightarrow>
             [Connect, Lib ''get_user_home_dir'' [],
              Lib ''clone_git_repo'' (git_repo @ [kernel_path, branch, or_default [] (value_of m ''SECRET'')]),
              Sh ''ls -1 /boot/config-* | head -n1'',
              Lib ''get_git_hash'' [kernel_path],
              Lib ''build_kernel''
                ([kernel_path, branch, boot_config env] @ map show_option opts @ [gen_local_version env branch, ''Deb'']),
              ShIn kernel_path (''sudo dpkg -i '' @ kernel_deb env @ '' '' @ kernel_headers_deb env),
              Sh ''sudo grub-set-default 0''] @
             (if is_present m ''BUILD_MMFS'' then map (\<lambda>mmfs. ShIn (kernel_dir env [kernel_path, mmfs]) ''make'') mmfs_dirs else []) @
             (if is_present m ''INSTALL_PERF'' then
                [ShIn perf_path ''make'', Sh ''sudo rm -f /usr/bin/perf'',
                 Sh (''sudo ln -s '' @ perf_path @ ''/perf /usr/bin/perf'')]
              else []))"

section \<open>The program\<close>

text \<open>\<^verbatim>\<open>run\<close> and \<^verbatim>\<open>main\<close>: the exit status is 101 after an error and 0 otherwise; a panic is an error.\<close>

definition runner_actions ::
  "runner_env \<Rightarrow> setup_env \<Rightarrow> kernel_env \<Rightarrow> (string \<Rightarrow> f32 option) \<Rightarrow> (string \<times> string) list \<Rightarrow> string \<Rightarrow>
   string \<times> matches \<Rightarrow> (string \<times> matches) option \<Rightarrow> action list" where
  "runner_actions env senv kenv pf settings now command subcommand =
     (case command of (name, m) \<Rightarrow>
        if name = ''setup_wkspc'' then setup_wkspc senv (setup_config_of m)
        else if name = ''setup_kernel'' then setup_kernel kenv m
        else if name = ''fbmm_exp'' then run_exp env pf settings now m subcommand
        else [Abort ''panic''])"

definition runner_main :: "host \<Rightarrow> action list \<Rightarrow> run_state \<Rightarrow> (nat \<times> run_state) option" where
  "runner_main h as s =
     (case exec h as s of
        None \<Rightarrow> None
      | Some (Inr _, s') \<Rightarrow> Some (0, s')
      | Some (Inl _, s') \<Rightarrow> Some (101, s'))"

section \<open>Lemmas\<close>

text \<open>Printing an option and reading it gives the option back, for every valid name.\<close>

theorem config_option_roundtrip:
  assumes "name \<noteq> []" "list_all config_char name"
  shows "config_option (show_option (name, b)) = Some (name, b)"
  using assms by (simp add: config_option_def parse_config_option_def show_option_def check_name_def)

theorem config_option_roundtrip_witness: "config_option ''-CONFIG_ZSWAP'' = Some (''CONFIG_ZSWAP'', False)"
  using config_option_roundtrip [of "''CONFIG_ZSWAP''" False] by (simp add: show_option_def config_char_def c_digit_def)

text \<open>Conversely, only such options are accepted.\<close>

theorem config_option_accepts:
  assumes "config_option opt = Some (name, b)"
  shows "opt = show_option (name, b) \<and> name \<noteq> [] \<and> list_all config_char name"
proof -
  obtain c rest where opt: "opt = c # rest" using assms by (cases opt) (auto simp: config_option_def parse_config_option_def)
  show ?thesis
    using assms unfolding opt
    by (auto simp: config_option_def parse_config_option_def check_name_def show_option_def split: if_splits)
qed

theorem config_option_accepts_witness: "''+SMP'' = show_option (''SMP'', True)"
  using config_option_accepts [of "''+SMP''" "''SMP''" True]
  by (simp add: config_option_def parse_config_option_def check_name_def config_char_def c_digit_def)

text \<open>
  The devices that \<^verbatim>\<open>setup_wkspc\<close> records as swap devices are those that it formats, under the
  names it formats them with.
\<close>

theorem swap_devices_recorded:
  assumes "swap_devices cfg = Some devs" "devs \<noteq> []"
    and "Lib ''set_remote_research_setting'' (''swap-devices'' # names) \<in> set (set_up_host_devices env cfg)"
  shows "map mkswap names = filter (\<lambda>a. a \<in> range mkswap) (set_up_host_devices env cfg)"
proof -
  have names: "names = map (swap_name env cfg) devs"
    using assms by (auto simp: set_up_host_devices_def mkswap_def split: if_splits)
  have other: "Lib f xs \<notin> range mkswap" "Sh ''sudo sed -i 's/^.*swap.*$/#& # COMMENTED OUT BY setup_wkspc/' /etc/fstab'' \<notin> range mkswap" for f xs
    by (auto simp: mkswap_def)
  have "filter (\<lambda>a. a \<in> range mkswap) (concat (map (\<lambda>dev.
      (if unstable_names cfg then [Lib ''get_device_id'' [dev]] else []) @ [mkswap (swap_name env cfg dev)]) ds)) =
      map mkswap (map (swap_name env cfg) ds)" for ds
    by (induction ds) (simp_all add: other)
  then show ?thesis using assms(1,2) names other by (simp add: set_up_host_devices_def)
qed

text \<open>
  Every kernel module that an experiment loads is in a directory that \<^verbatim>\<open>setup_kernel --build_mmfs\<close>
  builds.
\<close>

theorem modules_built:
  assumes "Insmod file \<in> set (mount_actions cfg fs)"
  shows "\<exists>dir\<in>set mmfs_dirs. \<exists>name. file = KERNEL_PATH @ ''/'' @ dir @ name"
proof (cases fs)
  case Ext4
  then show ?thesis using assms by (simp add: mount_actions_def split: if_splits)
next
  case (BasicMMFS n)
  then show ?thesis using assms
    by (intro bexI [of _ "''BasicMMFS/''"] exI [of _ "''basicmmfs.ko''"]) (simp_all add: mount_actions_def mmfs_dirs_def)
next
  case TieredMMFS
  then show ?thesis using assms
    by (intro bexI [of _ "''TieredMMFS/''"] exI [of _ "''tieredmmfs.ko''"])
      (simp_all add: mount_actions_def mmfs_dirs_def split: option.splits)
next
  case ContigMMFS
  then show ?thesis using assms
    by (intro bexI [of _ "''ContigMMFS/''"] exI [of _ "''contigmmfs.ko''"]) (simp_all add: mount_actions_def mmfs_dirs_def)
next
  case BandwidthMMFS
  then have "file = KERNEL_PATH @ ''/BandwidthMMFS/bandwidth.ko''" using assms by (auto simp: mount_actions_def)
  then show ?thesis by (intro bexI [of _ "''BandwidthMMFS/''"] exI [of _ "''bandwidth.ko''"]) (simp_all add: mmfs_dirs_def)
qed

end
