(* ===== verification/Spec2Isabelle.thy ===== *)
theory Spec2Isabelle
  imports Paging_Run Pgmod Gups_Hotset Zipf Stream_Bench Fbmm_Launch Shmem_Alloc Shm_Toc Sysv_Shmem Runner_Setup
begin

text \<open>
  A verification of the FBMM evaluation workspace.  FBMM (file-based memory management) lets a file
  system in the kernel back the anonymous memory of a process.  The workspace has benchmarks that
  exercise memory systems (\<^verbatim>\<open>src/bmks\<close>), a copy of PostgreSQL whose shared memory can be backed by FBMM
  (\<^verbatim>\<open>src/bmks/postgres\<close>), and a runner that sets up machines and carries out experiments
  (\<^verbatim>\<open>src/runner\<close>).  Every function is translated from the source; the theories and the source
  correspond as follows.

  \<^bold>\<open>Foundations.\<close>  \<open>Fbmm_Prelude\<close> has the machine integers, faults, and a byte memory with
  little-endian 64-bit accesses; the interface \<open>word_store\<close> states what a client may assume of such
  a memory.  \<open>C_Numbers\<close> has the conversions of the C library between text and integers, \<open>C_Floats\<close> the
  floating-point operations, which are parameters.  \<open>Thread_Schedules\<close> has threads that interleave at
  their steps; its interface \<open>isolated_threads\<close> gives that threads with disjoint memory do not
  influence each other.

  \<^bold>\<open>Page-table experiment\<close> (\<^verbatim>\<open>bmks/pagewalk_coherence\<close>).  \<open>Pagewalk\<close>: access to physical memory, the
  software page walk \<^verbatim>\<open>translate\<close> and the editor \<^verbatim>\<open>change_pte\<close>, shown to agree with the translation that
  the page tables define and to change one mapping only.  \<open>Page_Window\<close>: the window through which the
  program edits its own page tables, shown to reach the intended entries and to be removed without a
  trace.  \<open>Paging_Run\<close>: options, both experiments, the table of results and \<^verbatim>\<open>main\<close>.  \<open>Pgmod\<close>: the kernel
  module that gives the program its registers and access to \<^verbatim>\<open>/dev/mem\<close>.

  \<^bold>\<open>Benchmarks.\<close>  \<open>Gups\<close> and \<open>Gups_Hotset\<close> (\<^verbatim>\<open>bmks/gups/gups.c\<close>, \<^verbatim>\<open>gups-hotset-move.c\<close>): command line,
  division of the region, workers, timer and printer; for every schedule the workers stay in their
  regions.  \<open>Zipf\<close> (\<^verbatim>\<open>bmks/gups/zipf.c\<close>): the index generators and their bounds.  \<open>Stream_Bench\<close>
  (\<^verbatim>\<open>bmks/stream.c\<close>): the kernels in any order of their parallel iterations, the check of the results,
  the summary and the measurement of the clock; the interface \<open>lane_kernel\<close> says that a kernel works
  on each index for itself.

  \<^bold>\<open>Launchers\<close> (\<^verbatim>\<open>bmks/fbmm_wrapper.c\<close>, \<^verbatim>\<open>bmks/badger-trap.c\<close>).  \<open>Fbmm_Launch\<close>: the system calls they
  make, in order.

  \<^bold>\<open>PostgreSQL.\<close>  \<open>Pg_Base\<close>: errors, alignment macros, size arithmetic.  \<open>Region_Allocator\<close>: the interface
  \<open>region_allocator\<close> of allocators that only hand out, with the disjointness of all blocks; provided by
  \<open>Shmem_Alloc\<close> (\<^verbatim>\<open>storage/ipc/shmem.c\<close>: allocation, the index of named structures, the view of
  allocations) and by \<open>Shm_Toc\<close> (\<^verbatim>\<open>storage/ipc/shm_toc.c\<close>: tables of contents, with lookups that take no
  lock).  \<open>Sysv_Ipc\<close> models the System V shared memory of the operating system and \<open>Sysv_Shmem\<close>
  (\<^verbatim>\<open>port/sysv_shmem.c\<close>) the creation of shared memory on top of it, with the FBMM variant.

  \<^bold>\<open>Runner.\<close>  \<open>Runner_Base\<close>: the actions that the runner asks a machine for, what carrying them out
  does, and the text processing of boot options (interface \<open>option_matcher\<close>).  \<open>Runner_Cli\<close>: the declared
  command line of an experiment and the configuration made from it.  \<open>Runner_Exp\<close>: an experiment as a
  list of actions (\<^verbatim>\<open>fbmm_exp.rs\<close>).  \<open>Runner_Setup\<close>: the set-up commands and the program's \<^verbatim>\<open>main\<close>.  This
  theory connects the runner with the launchers and the benchmark.

  \<^bold>\<open>State and effects.\<close>  State is passed explicitly, as records with the source's fields.  Faults of C
  programs are values of \<open>fault\<close>, errors of PostgreSQL values of \<open>pg_error\<close>, panics of Rust \<open>None\<close> or
  \<open>Abort\<close>.  Integers keep their width where they can wrap around (\<open>u64\<close>, \<open>u32\<close>); Rust's \<^verbatim>\<open>usize\<close> is a
  natural number with the overflow check written out.

  \<^bold>\<open>Loops.\<close>  Loops over data are recursive functions with termination proofs.  Loops that depend on the
  outside world are partial functions with the value \<open>None\<close> for not returning: \<open>create_loop\<close> (the search
  for a free key), \<open>wait_tick\<close> (a clock), \<open>exec\<close> (connections and servers).  For each it is proved that it
  returns under a stated condition on the outside world.  One loop has fuel: \<open>pgmod_file\<close>, the reads of
  \<^verbatim>\<open>/proc/pgmod\<close> until one returns 0; two reads are enough, as the second returns 0, and the
  theorem about it is for every fuel of at least 2.

  \<^bold>\<open>Parameters.\<close>  Not under the source are the C library's random numbers, floating-point arithmetic,
  the processor's caching of page-table entries, the hash table behind PostgreSQL's index, the
  command-line library and \<^verbatim>\<open>libscail\<close>, which the runner calls.  They are arguments of the definitions;
  what a theorem needs of them is a hypothesis.

  \<^bold>\<open>Not modelled.\<close>  Printed text, log messages and time stamps.  The rest of PostgreSQL, a database server
  of more than a million lines in which FBMM plays no part.  Code of \<^verbatim>\<open>sysv_shmem.c\<close> that is
  compiled for \<^verbatim>\<open>EXEC_BACKEND\<close> only.  \<^verbatim>\<open>alloc_test.c\<close>, which only measures times, and the scripts in Python
  that trace, extract and plot.  The submodules (YCSB, memcached, graph500, libscail), which are not
  part of the repository.
\<close>

section \<open>From the runner to the benchmark\<close>

text \<open>
  How a shell splits a command into words, for commands with blanks and double quotes and no other
  special characters, and the words of the first command of a pipeline.
\<close>

fun sh_scan :: "bool \<Rightarrow> string option \<Rightarrow> string \<Rightarrow> string list" where
  "sh_scan quoted word [] = (case word of None \<Rightarrow> [] | Some w \<Rightarrow> [w])"
| "sh_scan quoted word (c # cs) =
     (if c = CHR 0x22 then sh_scan (\<not> quoted) (Some (case word of None \<Rightarrow> [] | Some w \<Rightarrow> w)) cs
      else if c = CHR '' '' \<and> \<not> quoted then
        (case word of None \<Rightarrow> sh_scan quoted None cs | Some w \<Rightarrow> w # sh_scan quoted None cs)
      else sh_scan quoted (Some ((case word of None \<Rightarrow> [] | Some w \<Rightarrow> w) @ [c])) cs)"

definition first_command :: "string \<Rightarrow> string list" where
  "first_command s = takeWhile (\<lambda>w. w \<noteq> ''|'') (sh_scan False None s)"

definition plain_word :: "string \<Rightarrow> bool" where
  "plain_word w \<longleftrightarrow> CHR '' '' \<notin> set w \<and> CHR 0x22 \<notin> set w"

lemma sh_scan_word: "plain_word x \<Longrightarrow> sh_scan q (Some w) (x @ y) = sh_scan q (Some (w @ x)) y"
  by (induction x arbitrary: w) (auto simp: plain_word_def)

lemma sh_scan_space: "plain_word x \<Longrightarrow> x \<noteq> [] \<Longrightarrow> sh_scan False None (x @ CHR '' '' # y) = x # sh_scan False None y"
  using sh_scan_word [of "tl x" False "[hd x]"] by (cases x) (auto simp: plain_word_def)

lemma sh_scan_quoted:
  "plain_word x \<Longrightarrow> sh_scan False None (CHR 0x22 # x @ CHR 0x22 # CHR '' '' # y) = x # sh_scan False None y"
  using sh_scan_word [of x True "[]"] by simp

lemma plain_decimal: "plain_word (decimal n)"
  using decimal_digits [of _ n] by (force simp: plain_word_def is_digit_def c_digit_def)

lemma plain_cores: "plain_word (pin_cores_str cores)"
proof -
  have "plain_word (join '','' xs)" if "\<forall>x\<in>set xs. plain_word x" for xs
    using that by (induction "'',''" xs rule: join.induct) (auto simp: plain_word_def)
  then show ?thesis using plain_decimal by (simp add: pin_cores_str_def)
qed

lemma cores_nonempty: "cores \<noteq> [] \<Longrightarrow> pin_cores_str cores \<noteq> []"
  by (cases cores; cases "tl cores") (auto simp: pin_cores_str_def)

text \<open>The words that the prefix of a command adds for the launchers.\<close>

definition launcher_words :: "runner_env \<Rightarrow> Config \<Rightarrow> string list" where
  "launcher_words env cfg =
     (if fbmm cfg \<noteq> None \<and> \<not> fbmm_control cfg then [bmks_dir env @ ''/fbmm_wrapper'', user_home env @ ''/daxtmp/''] else []) @
     (if use_badger_trap cfg then [bmks_dir env @ ''/badger-trap'', ''command''] else [])"

lemma fbmm_prefix_words:
  assumes "plain_word (bmks_dir env)" "plain_word (user_home env)"
  shows "sh_scan False None (fbmm_prefix env cfg @ y) = launcher_words env cfg @ sh_scan False None y"
proof -
  define W where "W = bmks_dir env @ ''/fbmm_wrapper '' @ dq @ user_home env @ ''/daxtmp/'' @ dq @ '' ''"
  define R where "R = bmks_dir env @ ''/badger-trap command ''"
  have prefix: "fbmm_prefix env cfg = (if fbmm cfg \<noteq> None \<and> \<not> fbmm_control cfg then W else []) @ (if use_badger_trap cfg then R else [])"
    by (simp add: fbmm_prefix_def W_def R_def)
  have wrapper: "sh_scan False None (W @ z) = (bmks_dir env @ ''/fbmm_wrapper'') # (user_home env @ ''/daxtmp/'') # sh_scan False None z" for z
    using sh_scan_space [of "bmks_dir env @ ''/fbmm_wrapper''" "dq @ user_home env @ ''/daxtmp/'' @ dq @ '' '' @ z"]
      sh_scan_quoted [of "user_home env @ ''/daxtmp/''" z] assms by (simp add: W_def plain_word_def dq_def del: sh_scan.simps)
  have trap: "sh_scan False None (R @ z) = (bmks_dir env @ ''/badger-trap'') # ''command'' # sh_scan False None z" for z
    using sh_scan_space [of "bmks_dir env @ ''/badger-trap''" "''command '' @ z"] sh_scan_space [of "''command''" z] assms(1)
    by (simp add: R_def plain_word_def del: sh_scan.simps)
  show ?thesis by (simp add: prefix launcher_words_def wrapper trap del: sh_scan.simps)
qed

lemma gups_words:
  assumes "plain_word (bmks_dir env)" "plain_word (user_home env)" "cores \<noteq> []"
    and "perf_prefix env cfg cores = []" "numa_prefix env cfg = []"
  shows "first_command (gups_command (cmd_prefix env cfg cores) (pin_cores_str cores) T E None mv U file) =
    [''sudo'', ''taskset'', ''-c'', pin_cores_str cores] @ launcher_words env cfg @
    [''./gups'', decimal T, decimal U, decimal E, ''8'']"
proof -
  let ?cores = "pin_cores_str cores"
  have start: "sh_scan False None (''sudo taskset -c '' @ ?cores @ '' '' @ z) = [''sudo'', ''taskset'', ''-c'', ?cores] @ sh_scan False None z" for z
    using sh_scan_space [OF plain_cores cores_nonempty [OF assms(3)], of z] by simp
  have skip: "sh_scan False None ('' '' @ z) = sh_scan False None z" for z by simp
  have num: "sh_scan False None (decimal n @ '' '' @ z) = decimal n # sh_scan False None z" for n z
    using sh_scan_space [OF plain_decimal decimal_nonempty, of n z] by simp
  have rest: "sh_scan False None (''./gups '' @ z) = ''./gups'' # sh_scan False None z"
    "sh_scan False None (''8 | tee '' @ z) = ''8'' # ''|'' # ''tee'' # sh_scan False None z" for z by simp_all
  have cmd: "gups_command (cmd_prefix env cfg cores) ?cores T E None mv U file =
      ''sudo taskset -c '' @ ?cores @ '' '' @ fbmm_prefix env cfg @ '' '' @ ''./gups '' @
      decimal T @ '' '' @ decimal U @ '' '' @ decimal E @ '' '' @ ''8 | tee '' @ file"
    using assms(4,5) by (simp add: gups_command_def taskset_def cmd_prefix_def)
  have words: "sh_scan False None (gups_command (cmd_prefix env cfg cores) ?cores T E None mv U file) =
      [''sudo'', ''taskset'', ''-c'', ?cores] @ launcher_words env cfg @ [''./gups'', decimal T, decimal U, decimal E, ''8''] @
      ''|'' # ''tee'' # sh_scan False None file"
    unfolding cmd start fbmm_prefix_words [OF assms(1,2)] skip rest num by simp
  have bar: "CHR ''|'' \<notin> set (decimal n)" for n using decimal_digits [of _ n] by (force simp: is_digit_def c_digit_def)
  have "CHR ''|'' \<notin> set (join '','' (map decimal cs))" for cs
    by (induction cs rule: induct_list012) (auto simp: bar)
  then have "CHR ''|'' \<notin> set ?cores" by (simp add: pin_cores_str_def)
  then have "?cores \<noteq> ''|''" "decimal n \<noteq> ''|''" for n using bar [of n] by auto
  moreover have "\<forall>w\<in>set (launcher_words env cfg). w \<noteq> ''|''"
    by (auto simp: launcher_words_def append_eq_Cons_conv)
  ultimately show ?thesis unfolding first_command_def words by (simp add: takeWhile_append2)
qed

text \<open>
  C7: The programs fit together.  For an experiment with GUPS under FBMM, the command that the
  runner times is split by the shell into words with which the wrapper stores the runner's mount
  point, \<^verbatim>\<open>daxtmp/\<close> in the user's home, for its own process and then starts the benchmark, directly or
  through BadgerTrap when that is asked for; and the benchmark, given these very words, accepts its
  command line and performs its updates without a fault, whatever the order of its threads.
\<close>

theorem runner_launches_gups:
  assumes "plain_word (bmks_dir env)" "plain_word (user_home env)" "cores \<noteq> []"
    and "perf_prefix env cfg cores = []" "numa_prefix env cfg = []" "fbmm cfg \<noteq> None" "\<not> fbmm_control cfg"
    and "workload cfg = Gups T E None mv U"
    and "malloc_ok wenv" "fopen_ok wenv" "exec_ok wenv" "getpid wenv < 10 ^ 10" "r \<noteq> -1"
    and "0 < T" "T \<le> 64" "256 \<le> U" "U < 2 ^ 63" "9 \<le> E" "E < 64"
    and "set sched1 \<subseteq> {..<T}" "\<forall>k<T. 2 * (U - U mod 256) < count_list sched1 k"
    and "set sched2 \<subseteq> {..<T}" "\<forall>k<T. 2 * (U - U mod 256) < count_list sched2 k"
  shows "\<exists>cmd rest evs argv m2.
    workload_actions env cfg (cmd_prefix env cfg cores) cores = Timed (ShIn (in_bmks env ''gups/'') cmd) # rest \<and>
    take 4 (first_command cmd) = [''sudo'', ''taskset'', ''-c'', pin_cores_str cores] \<and>
    fbmm_wrapper wenv (drop 4 (first_command cmd)) = Inr (WriteFile (pid_file (getpid wenv)) (user_home env @ ''/daxtmp/'') # evs, Replaced) \<and>
    (if use_badger_trap cfg
     then \<exists>bargv run. evs = [Execv (bmks_dir env @ ''/badger-trap'') bargv] \<and>
       badger_trap r bargv = Syscall BADGER_TRAP_SYSCALL_NR (Some [''gups'']) 1 1 # Fork # Execvp ''./gups'' argv # run
     else evs = [Execv ''./gups'' argv]) \<and>
    gups_main argv (Some p) (seed1, sched1) (seed2, sched2) m = Inr (Some m2)"
proof -
  let ?argv = "[''./gups'', decimal T, decimal U, decimal E, ''8'']"
  let ?cmd = "gups_command (cmd_prefix env cfg cores) (pin_cores_str cores) T E None mv U (result_file env cfg ''gups'')"
  have "decimal 8 = ''8''" by (simp add: decimal.simps char_of_def bit_0)
  then obtain m2 where m2: "gups_main ?argv (Some p) (seed1, sched1) (seed2, sched2) m = Inr (Some m2)"
    using gups_main_command [OF assms(14-23), of p seed1 m seed2 "''./gups''"] by auto
  obtain rest where acts: "workload_actions env cfg (cmd_prefix env cfg cores) cores = Timed (ShIn (in_bmks env ''gups/'') ?cmd) # rest"
    by (simp add: workload_actions_def assms(8) run_gups_def)
  have words: "take 4 (first_command ?cmd) = [''sudo'', ''taskset'', ''-c'', pin_cores_str cores]"
    "drop 4 (first_command ?cmd) = launcher_words env cfg @ ?argv"
    unfolding gups_words [OF assms(1-5)] by simp_all
  have fits: "\<not> PATH_MAX < length (pid_file (getpid wenv)) + 1" using pid_file_fits [OF assms(12)] by simp
  let ?bargv = "[bmks_dir env @ ''/badger-trap'', ''command''] @ ?argv"
  have wrapped: "fbmm_wrapper wenv (drop 4 (first_command ?cmd)) =
      Inr ([WriteFile (pid_file (getpid wenv)) (user_home env @ ''/daxtmp/''),
        (if use_badger_trap cfg then Execv (bmks_dir env @ ''/badger-trap'') ?bargv else Execv ''./gups'' ?argv)], Replaced)"
    unfolding words(2) using fits assms(6,7,9-11) by (simp add: fbmm_wrapper_def launcher_words_def)
  have "basename ''./gups'' = (''gups'', ''./gups'')" by (simp add: basename_def strip_slashes_def)
  then have "badger_trap r ?bargv = Syscall BADGER_TRAP_SYSCALL_NR (Some [''gups'']) 1 1 # Fork # Execvp ''./gups'' ?argv #
      [Message ''launched'', WaitChild, Syscall 314 None 0 1]"
    using assms(13) by (simp add: badger_trap_def)
  then have started: "if use_badger_trap cfg
     then \<exists>bargv run. [if use_badger_trap cfg then Execv (bmks_dir env @ ''/badger-trap'') ?bargv else Execv ''./gups'' ?argv] =
         [Execv (bmks_dir env @ ''/badger-trap'') bargv] \<and>
       badger_trap r bargv = Syscall BADGER_TRAP_SYSCALL_NR (Some [''gups'']) 1 1 # Fork # Execvp ''./gups'' ?argv # run
     else [if use_badger_trap cfg then Execv (bmks_dir env @ ''/badger-trap'') ?bargv else Execv ''./gups'' ?argv] = [Execv ''./gups'' ?argv]"
    by simp
  show ?thesis by (intro exI conjI, rule acts, rule words(1), rule wrapped, rule started, rule m2)
qed

theorem runner_launches_gups_witness:
  "\<exists>cmd argv m2. fbmm_wrapper \<lparr>malloc_ok = True, getpid = 4242, fopen_ok = True, exec_ok = True\<rparr> (drop 4 (first_command cmd)) =
      Inr ([WriteFile ''/proc/4242/fbmm_mnt_dir'' ''/home/user/daxtmp/'', Execv ''./gups'' argv], Replaced) \<and>
    gups_main argv (Some 0x7f5707200000) (\<lambda>k. of_nat k + 1, replicate 513 0 @ replicate 513 1)
      (\<lambda>k. of_nat k + 1, replicate 513 0 @ replicate 513 1) (\<lambda>_. 0) = Inr (Some m2)"
proof -
  obtain cfg :: Config where cfg: "perf_stat cfg = False" "flame_graph cfg = False" "numactl cfg = False" "hmsdk_bw cfg = False"
    "hmsdk_tiered cfg = False" "fbmm cfg = Some ContigMMFS" "fbmm_control cfg = False" "use_badger_trap cfg = False"
    "workload cfg = Gups 2 9 None False 300"
    by (rule that [of "c\<lparr>perf_stat := False, flame_graph := False, numactl := False, hmsdk_bw := False, hmsdk_tiered := False,
      fbmm := Some ContigMMFS, fbmm_control := False, use_badger_trap := False, workload := Gups 2 9 None False 300\<rparr>" for c]) simp_all
  have count: "\<forall>k<2. 2 * (300 - 300 mod 256) < count_list (replicate 513 0 @ replicate 513 1) (k :: nat)"
    by (auto simp: count_list_same less_2_cases_iff)
  have plain: "plain_word (bmks_dir demo_runner)" "plain_word (user_home demo_runner)"
    by (simp_all add: plain_word_def bmks_dir_def demo_runner_def RESEARCH_WORKSPACE_PATH_def BMKS_PATH_def)
  have pid: "pid_file 4242 = ''/proc/4242/fbmm_mnt_dir''" "user_home demo_runner = ''/home/user''"
    by (simp_all add: pid_file_def demo_runner_def decimal.simps char_of_def bit_0)
  have prefix: "perf_prefix demo_runner cfg [0, 1] = []" "numa_prefix demo_runner cfg = []"
    by (simp_all add: perf_prefix_def numa_prefix_def cfg)
  show ?thesis
    using runner_launches_gups [OF plain _ prefix _ _ cfg(9), of "\<lparr>malloc_ok = True, getpid = 4242, fopen_ok = True, exec_ok = True\<rparr>" 5
      "replicate 513 0 @ replicate 513 1" "replicate 513 0 @ replicate 513 1" "0x7f5707200000" "\<lambda>k. of_nat k + 1" "\<lambda>k. of_nat k + 1" "\<lambda>_. 0"] count
    by (simp add: cfg pid) blast
qed

end
